theory Spec2Isabelle
  imports Complex_Main
begin

section \<open>Arc-length queries on splines (spline\_library/arclength.h)\<close>

text \<open>
  The header is a set of templates over a spline type and a type \<open>floating_t\<close>.
  Numbers of type \<open>floating_t\<close> are modelled as reals. The segment solver and the
  two partitions are embedded twice. In the first embedding the arithmetic is
  exact; it carries the properties that do not depend on how a result is
  rounded. In the second, whose names end in \<open>_fl\<close>, every arithmetic operation of
  the source returns \<open>rnd\<close> of its exact result, where \<open>rnd\<close>, the rounding of
  \<open>floating_t\<close>, is a parameter; \<open>round_double\<close> is the rounding of \<open>double\<close>, and
  the identity gives the first embedding back. The point query \<open>solveLength\<close> is
  embedded in the second way only. Non-finite values are not modelled: where the
  source divides, the model returns \<open>NonFinite\<close> when the divisor is zero (the
  floating quotient would be an infinity or a NaN), and says nothing about what
  the source does with such a value. Indices of type \<open>size_t\<close> are natural numbers;
  the two places where a \<open>size_t\<close> is computed from other data (a conversion from
  \<open>floating_t\<close>, an increment) have the 64-bit range written out.
\<close>

subsection \<open>The collaborators: the spline, the floating type, the root finder\<close>

datatype error =
    OutOfRange      \<comment> \<open>\<open>operator[]\<close> of a \<open>std::vector\<close> past its end\<close>
  | BadConversion   \<comment> \<open>\<open>size_t(x)\<close> for an \<open>x\<close> that has no \<open>size_t\<close> value\<close>
  | NonFinite       \<comment> \<open>a division by zero\<close>

text \<open>
  What a call does to its collaborators, in the order it does it: a length query
  \<open>spline.segmentArcLength(i, from, to)\<close> made by the engine itself, or one
  invocation \<open>solveSegment(spline, i, desiredLength, maxLength, aPercent)\<close>.
\<close>

datatype event =
    ArcLength nat real real
  | Solve nat real real real

text \<open>
  The spline and its \<open>InterpolationType\<close> (a vector type \<open>'v\<close> with a length, a
  division by a scalar and a dot product). None of it is defined in the header;
  it is the parameter of every function.
\<close>

record 'v spline =
  segmentCount :: nat
  segmentT :: "nat \<Rightarrow> real"
  segmentForT :: "real \<Rightarrow> nat"
  segmentArcLength :: "nat \<Rightarrow> real \<Rightarrow> real \<Rightarrow> real"
  getCurvature :: "real \<Rightarrow> 'v \<times> 'v"
  getMaxT :: real
  vec_length :: "'v \<Rightarrow> real"
  vec_div :: "'v \<Rightarrow> real \<Rightarrow> 'v"
  dotProduct :: "'v \<Rightarrow> 'v \<Rightarrow> real"

text \<open>
  \<open>std::numeric_limits<floating_t>::digits\<close> and
  \<open>boost::math::tools::halley_iterate(f, guess, min, max, digits)\<close>: both come from
  outside the header and are parameters as well.
\<close>

record numerics =
  digits :: nat
  halley_iterate :: "(real \<Rightarrow> real \<times> real \<times> real) \<Rightarrow> real \<Rightarrow> real \<Rightarrow> real \<Rightarrow> nat \<Rightarrow> real"

subsection \<open>The segment solver (lines 11--38), exact\<close>

definition solveFunction ::
  "'v spline \<Rightarrow> nat \<Rightarrow> real \<Rightarrow> real \<Rightarrow> real \<Rightarrow> real \<times> real \<times> real" where
  "solveFunction s segmentIndex desiredLength aPercent bPercent =
     (let bBegin = segmentT s segmentIndex;
          bEnd = segmentT s (segmentIndex + 1);
          val = segmentArcLength s segmentIndex aPercent bPercent - desiredLength;
          b = bBegin + bPercent * (bEnd - bBegin);
          (tangent, curvature) = getCurvature s b;
          tangentLength = vec_length s tangent;
          secondDerivative = dotProduct s (vec_div s tangent tangentLength) curvature
      in (val, tangentLength, secondDerivative))"

definition solveSegment ::
  "numerics \<Rightarrow> 'v spline \<Rightarrow> nat \<Rightarrow> real \<Rightarrow> real \<Rightarrow> real \<Rightarrow> error + real" where
  "solveSegment E s segmentIndex desiredLength maxLength aPercent =
     (if maxLength = 0 then Inl NonFinite
      else
        let desiredPercent = desiredLength / maxLength;
            bGuess = aPercent + desiredPercent * (1 - aPercent)
        in Inr (halley_iterate E (solveFunction s segmentIndex desiredLength aPercent)
                  bGuess aPercent 1 (digits E div 2)))"

text \<open>The global parameter of the local fraction \<open>bPercent\<close> of segment \<open>bIndex\<close>
  (lines 87--89, 144--146, 210--213).\<close>

definition globalT :: "'v spline \<Rightarrow> nat \<Rightarrow> real \<Rightarrow> real" where
  "globalT s bIndex bPercent =
     (let bBegin = segmentT s bIndex; bEnd = segmentT s (bIndex + 1)
      in bBegin + bPercent * (bEnd - bBegin))"

subsection \<open>The two partitions (lines 97--154 and 159--221), exact\<close>

text \<open>The table of lines 101--108 (and 163--170), its sum, and the queries that fill it.\<close>

definition segmentLengths :: "'v spline \<Rightarrow> real list" where
  "segmentLengths s = map (\<lambda>i. segmentArcLength s i 0 1) [0..<segmentCount s]"

definition totalArcLength :: "'v spline \<Rightarrow> real" where
  "totalArcLength s = foldl (+) 0 (segmentLengths s)"

definition tableEvents :: "'v spline \<Rightarrow> event list" where
  "tableEvents s = map (\<lambda>i. ArcLength i 0 1) [0..<segmentCount s]"

text \<open>
  The inner loop of lines 125--129 (and 191--195). \<open>segmentLengths[++bIndex]\<close> is
  unchecked: past the end of the table it is \<open>OutOfRange\<close>.
\<close>

function advance ::
  "real list \<Rightarrow> nat \<Rightarrow> real \<Rightarrow> real \<Rightarrow> error + (nat \<times> real \<times> real)" where
  "advance lens bIndex segmentRemainder desiredLength =
     (if segmentRemainder < desiredLength then
        (if bIndex + 1 < length lens then
           advance lens (bIndex + 1) (lens ! (bIndex + 1)) (desiredLength - segmentRemainder)
         else Inl OutOfRange)
      else Inr (bIndex, segmentRemainder, desiredLength))"
  by pat_completeness auto
termination
  by (relation "measure (\<lambda>(lens, bIndex, r, d). length lens - bIndex)") auto

declare advance.simps [simp del]

text \<open>
  The same loop when the subtraction is rounded by \<open>rnd\<close> (the rounded embedding
  below).
\<close>

function advance_fl ::
  "(real \<Rightarrow> real) \<Rightarrow> real list \<Rightarrow> nat \<Rightarrow> real \<Rightarrow> real \<Rightarrow> error + (nat \<times> real \<times> real)" where
  "advance_fl rnd lens bIndex segmentRemainder desiredLength =
     (if segmentRemainder < desiredLength then
        (if bIndex + 1 < length lens then
           advance_fl rnd lens (bIndex + 1) (lens ! (bIndex + 1))
             (rnd (desiredLength - segmentRemainder))
         else Inl OutOfRange)
      else Inr (bIndex, segmentRemainder, desiredLength))"
  by pat_completeness auto
termination
  by (relation "measure (\<lambda>(rnd, lens, bIndex, r, d). length lens - bIndex)") auto

declare advance_fl.simps [simp del]

text \<open>The state carried from one piece to the next (lines 112--114, 149--151).\<close>

record scan_state =
  segmentRemainder :: real
  previousPercent :: real
  aIndex :: nat

text \<open>
  One round of the outer loop (lines 120--151, and the same text at 186--218):
  the new boundary, the state for the next round and the solver invocation.
\<close>

definition cutPiece ::
  "numerics \<Rightarrow> 'v spline \<Rightarrow> real list \<Rightarrow> real \<Rightarrow> scan_state \<Rightarrow>
     error + (real \<times> scan_state \<times> event)" where
  "cutPiece E s lens lengthPerPiece st =
     (case advance lens (aIndex st) (segmentRemainder st) lengthPerPiece of
        Inl e \<Rightarrow> Inl e
      | Inr (bIndex, segmentRemainder', desiredLength) \<Rightarrow>
          let aPercent = (if aIndex st = bIndex then previousPercent st else 0) in
          (case solveSegment E s bIndex desiredLength segmentRemainder' aPercent of
             Inl e \<Rightarrow> Inl e
           | Inr bPercent \<Rightarrow>
               Inr (globalT s bIndex bPercent,
                    \<lparr>segmentRemainder = segmentRemainder' - desiredLength,
                     previousPercent = bPercent,
                     aIndex = bIndex\<rparr>,
                    Solve bIndex desiredLength segmentRemainder' aPercent)))"

text \<open>The outer loop \<open>for(size_t i = 1; i < bound; i++)\<close>, where \<open>bound\<close> is
  \<open>pieces.size()\<close> in \<open>partition\<close> and \<open>n\<close> in \<open>partitionN\<close>.\<close>

function pieceLoop ::
  "numerics \<Rightarrow> 'v spline \<Rightarrow> real list \<Rightarrow> real \<Rightarrow> nat \<Rightarrow> nat \<Rightarrow> scan_state \<Rightarrow>
     real list \<Rightarrow> event list \<Rightarrow> error + (real list \<times> event list)" where
  "pieceLoop E s lens lengthPerPiece bound i st pieces evs =
     (if i < bound then
        (case cutPiece E s lens lengthPerPiece st of
           Inl e \<Rightarrow> Inl e
         | Inr (t, st', ev) \<Rightarrow>
             pieceLoop E s lens lengthPerPiece bound (i + 1) st' (pieces[i := t]) (evs @ [ev]))
      else Inr (pieces, evs))"
  by pat_completeness auto
termination
  by (relation "measure (\<lambda>(E, s, lens, l, bound, i, st, ps, evs). bound - i)") auto

declare pieceLoop.simps [simp del]

text \<open>
  \<open>size_t(x)\<close> for a floating \<open>x\<close> truncates towards zero and is undefined when the
  truncated value is not a \<open>size_t\<close> (64 bits).
\<close>

definition size_t_of :: "real \<Rightarrow> error + nat" where
  "size_t_of x = (if - 1 < x \<and> x < 2 ^ 64 then Inr (nat \<lfloor>x\<rfloor>) else Inl BadConversion)"

definition partition_by_length ::
  "numerics \<Rightarrow> 'v spline \<Rightarrow> real \<Rightarrow> error + (real list \<times> event list)" where
  "partition_by_length E s lengthPerPiece =
     (let lens = segmentLengths s;
          total = totalArcLength s
      in if lengthPerPiece = 0 then Inl NonFinite
      else
        (case size_t_of (total / lengthPerPiece) of
           Inl e \<Rightarrow> Inl e
         | Inr k \<Rightarrow>
             let pieces = replicate ((k + 1) mod 2 ^ 64) (0::real) in
             if lens = [] then Inl OutOfRange
             else
               pieceLoop E s lens lengthPerPiece (length pieces) 1
                 \<lparr>segmentRemainder = lens ! 0, previousPercent = 0, aIndex = 0\<rparr>
                 pieces (tableEvents s)))"

text \<open>
  In \<open>partitionN\<close> the quotient \<open>totalArcLength / n\<close> is only read inside the loop,
  which does not run for \<open>n = 0\<close>; \<open>pieces[0]\<close> and \<open>pieces[n]\<close> are written
  unchecked.
\<close>

definition partitionN ::
  "numerics \<Rightarrow> 'v spline \<Rightarrow> nat \<Rightarrow> error + (real list \<times> event list)" where
  "partitionN E s n =
     (let lens = segmentLengths s;
          total = totalArcLength s;
          lengthPerPiece = total / real n;
          pieces = replicate ((n + 1) mod 2 ^ 64) (0::real)
      in if \<not> (0 < length pieces \<and> n < length pieces) then Inl OutOfRange
      else
        let pieces = pieces[0 := 0];
            pieces = pieces[n := getMaxT s]
        in if lens = [] then Inl OutOfRange
           else
             pieceLoop E s lens lengthPerPiece n 1
               \<lparr>segmentRemainder = lens ! 0, previousPercent = 0, aIndex = 0\<rparr>
               pieces (tableEvents s))"

subsection \<open>The root finder of the specification\<close>

text \<open>
  Modelled from the spec: \<open>halley_iterate\<close> is the root finder of the Boost library
  (\<open>boost/math/tools/roots.hpp\<close>, included at line 3), and is not under src/. The
  specification describes it as a second-order refinement that uses the value, the
  first and the second derivative of the objective, whose iteration count is capped
  by the bound passed to it, and which is bracketed so that it cannot leave
  \<open>[min, max]\<close>. \<open>halley_loop\<close> is that iteration: it stops at a root or when the cap
  is used up, takes Halley's step \<open>x - 2 f f' / (2 f'\<^sup>2 - f f'')\<close> and clamps it to
  the bracket; it returns the last iterate and the number of steps taken.
\<close>

fun halley_loop ::
  "(real \<Rightarrow> real \<times> real \<times> real) \<Rightarrow> real \<Rightarrow> real \<Rightarrow> nat \<Rightarrow> real \<Rightarrow> real \<times> nat" where
  "halley_loop f lo hi 0 x = (x, 0)"
| "halley_loop f lo hi (Suc k) x =
     (case f x of (f0, f1, f2) \<Rightarrow>
        if f0 = 0 then (x, 0)
        else
          let denom = 2 * f1 * f1 - f0 * f2;
              x' = (if denom = 0 then x else x - 2 * f0 * f1 / denom);
              x'' = max lo (min hi x')
          in (case halley_loop f lo hi k x'' of (r, n) \<Rightarrow> (r, Suc n)))"

definition halley_spec ::
  "(real \<Rightarrow> real \<times> real \<times> real) \<Rightarrow> real \<Rightarrow> real \<Rightarrow> real \<Rightarrow> nat \<Rightarrow> real" where
  "halley_spec f guess lo hi max_iter = fst (halley_loop f lo hi max_iter guess)"

definition specNumerics :: "nat \<Rightarrow> numerics" where
  "specNumerics dg = \<lparr>digits = dg, halley_iterate = halley_spec\<rparr>"

subsection \<open>The rounding of \<open>floating_t\<close>\<close>

text \<open>
  \<open>binade x\<close> is the exponent \<open>e\<close> with \<open>2\<^sup>e \<le> x < 2\<^sup>e\<^sup>+\<^sup>1\<close> of a positive \<open>x\<close>.
  \<open>round_double\<close> rounds to the nearest number with a significand of 53 bits, a
  tie going to the even significand, as the arithmetic of IEEE 754 \<open>binary64\<close>
  does by default. The exponent is not bounded: overflow and subnormal numbers
  are left out.
\<close>

function binade :: "real \<Rightarrow> int" where
  "binade x =
     (if x \<le> 0 then 0
      else if 2 \<le> x then binade (x / 2) + 1
      else if x < 1 then binade (2 * x) - 1
      else 0)"
  by pat_completeness auto
termination
proof (relation "measure (\<lambda>x. if x \<le> 0 \<or> (1 \<le> x \<and> x < 2) then 0 else 1 + nat \<lfloor>\<bar>log 2 x\<bar>\<rfloor>)")
  show "wf (measure (\<lambda>x. if x \<le> 0 \<or> (1 \<le> x \<and> x < 2) then 0 else 1 + nat \<lfloor>\<bar>log 2 x\<bar>\<rfloor>))"
    by simp
next
  fix x :: real
  assume x: "\<not> x \<le> 0" "2 \<le> x"
  show "(x / 2, x) \<in> measure (\<lambda>x. if x \<le> 0 \<or> (1 \<le> x \<and> x < 2) then 0 else 1 + nat \<lfloor>\<bar>log 2 x\<bar>\<rfloor>)"
  proof (cases "x / 2 < 2")
    case True
    then show ?thesis using x by simp
  next
    case False
    then have l2: "2 \<le> log 2 x" using x by (simp add: le_log_iff)
    have a: "\<bar>log 2 x\<bar> = log 2 x" using l2 by simp
    have b: "\<bar>log 2 (x / 2)\<bar> = log 2 x - 1" using x l2 by (simp add: log_divide)
    have "2 \<le> \<lfloor>log 2 x\<rfloor>" using l2 by linarith
    then have c: "nat \<lfloor>log 2 x - 1\<rfloor> < nat \<lfloor>log 2 x\<rfloor>"
      by (simp only: floor_diff_one; linarith)
    show ?thesis
      unfolding in_measure using x False c by (simp only: a b) simp
  qed
next
  fix x :: real
  assume x: "\<not> x \<le> 0" "\<not> 2 \<le> x" "x < 1"
  show "(2 * x, x) \<in> measure (\<lambda>x. if x \<le> 0 \<or> (1 \<le> x \<and> x < 2) then 0 else 1 + nat \<lfloor>\<bar>log 2 x\<bar>\<rfloor>)"
  proof (cases "1 \<le> 2 * x")
    case True
    then show ?thesis using x by simp
  next
    case False
    then have "x < 1 / 2" by simp
    then have l1: "log 2 x < - 1" using x by (simp add: log_less_iff powr_minus divide_simps)
    have a: "\<bar>log 2 x\<bar> = - log 2 x" using l1 by simp
    have b: "\<bar>log 2 (2 * x)\<bar> = - log 2 x - 1" using x l1 by (simp add: log_mult)
    have "1 \<le> \<lfloor>- log 2 x\<rfloor>" using l1 by linarith
    then have c: "nat \<lfloor>- log 2 x - 1\<rfloor> < nat \<lfloor>- log 2 x\<rfloor>"
      by (simp only: floor_diff_one; linarith)
    show ?thesis
      unfolding in_measure using x False c by (simp only: a b) simp
  qed
qed

declare binade.simps [simp del]

definition round_even :: "real \<Rightarrow> int" where
  "round_even q =
     (let n = \<lfloor>q\<rfloor>; r = q - of_int n
      in if r < 1 / 2 then n
         else if 1 / 2 < r then n + 1
         else if even n then n else n + 1)"

definition round_double :: "real \<Rightarrow> real" where
  "round_double x =
     (if x = 0 then 0
      else
        let e = binade \<bar>x\<bar> - 52
        in sgn x * (of_int (round_even (\<bar>x\<bar> / 2 powi e)) * 2 powi e))"

subsection \<open>The segment solver and the point query \<open>solveLength\<close> (lines 11--90), rounded\<close>

text \<open>
  Each subtraction, addition, multiplication and division of the source is one
  rounded operation, in the order the expression is evaluated; no two operations
  are fused. The values the spline returns are numbers of \<open>floating_t\<close> already
  and are not rounded again.
\<close>

definition solveFunction_fl ::
  "(real \<Rightarrow> real) \<Rightarrow> 'v spline \<Rightarrow> nat \<Rightarrow> real \<Rightarrow> real \<Rightarrow> real \<Rightarrow> real \<times> real \<times> real" where
  "solveFunction_fl rnd s segmentIndex desiredLength aPercent bPercent =
     (let bBegin = segmentT s segmentIndex;
          bEnd = segmentT s (segmentIndex + 1);
          val = rnd (segmentArcLength s segmentIndex aPercent bPercent - desiredLength);
          b = rnd (bBegin + rnd (bPercent * rnd (bEnd - bBegin)));
          (tangent, curvature) = getCurvature s b;
          tangentLength = vec_length s tangent;
          secondDerivative = dotProduct s (vec_div s tangent tangentLength) curvature
      in (val, tangentLength, secondDerivative))"

definition solveSegment_fl ::
  "(real \<Rightarrow> real) \<Rightarrow> numerics \<Rightarrow> 'v spline \<Rightarrow> nat \<Rightarrow> real \<Rightarrow> real \<Rightarrow> real \<Rightarrow> error + real" where
  "solveSegment_fl rnd E s segmentIndex desiredLength maxLength aPercent =
     (if maxLength = 0 then Inl NonFinite
      else
        let desiredPercent = rnd (desiredLength / maxLength);
            bGuess = rnd (aPercent + rnd (desiredPercent * rnd (1 - aPercent)))
        in Inr (halley_iterate E (solveFunction_fl rnd s segmentIndex desiredLength aPercent)
                  bGuess aPercent 1 (digits E div 2)))"

definition globalT_fl :: "(real \<Rightarrow> real) \<Rightarrow> 'v spline \<Rightarrow> nat \<Rightarrow> real \<Rightarrow> real" where
  "globalT_fl rnd s bIndex bPercent =
     (let bBegin = segmentT s bIndex; bEnd = segmentT s (bIndex + 1)
      in rnd (bBegin + rnd (bPercent * rnd (bEnd - bBegin))))"

text \<open>
  The loop of lines 64--76, entered with \<open>bIndex\<close> not yet incremented. It returns
  the final \<open>bIndex\<close>, \<open>desiredLength\<close> and \<open>bLength\<close>, and the length queries made.
\<close>

function scanSegments ::
  "(real \<Rightarrow> real) \<Rightarrow> 'v spline \<Rightarrow> nat \<Rightarrow> real \<Rightarrow> real \<Rightarrow> nat \<times> real \<times> real \<times> event list" where
  "scanSegments rnd s bIndex desiredLength bLength =
     (if bIndex + 1 < segmentCount s then
        (let bLength' = segmentArcLength s (bIndex + 1) 0 1 in
         if bLength' < desiredLength then
           (case scanSegments rnd s (bIndex + 1) (rnd (desiredLength - bLength')) bLength' of
              (b, d, l, evs) \<Rightarrow> (b, d, l, ArcLength (bIndex + 1) 0 1 # evs))
         else (bIndex + 1, desiredLength, bLength', [ArcLength (bIndex + 1) 0 1]))
      else (bIndex + 1, desiredLength, bLength, []))"
  by pat_completeness auto
termination
  by (relation "measure (\<lambda>(rnd, s, bIndex, d, l). segmentCount s - bIndex)") auto

declare scanSegments.simps [simp del]

definition solveLength ::
  "(real \<Rightarrow> real) \<Rightarrow> numerics \<Rightarrow> 'v spline \<Rightarrow> real \<Rightarrow> real \<Rightarrow> error + (real \<times> event list)" where
  "solveLength rnd E s a desiredLength =
     (let aIndex = segmentForT s a;
          aBegin = segmentT s aIndex;
          aEnd = segmentT s (aIndex + 1)
      in if rnd (aEnd - aBegin) = 0 then Inl NonFinite
      else
        let aPercent = rnd (rnd (a - aBegin) / rnd (aEnd - aBegin));
            aLength = segmentArcLength s aIndex aPercent 1;
            ev0 = ArcLength aIndex aPercent 1;
            (bIndex, aPercent', desiredLength', bLength, evs) =
              (if aLength < desiredLength then
                 (case scanSegments rnd s aIndex (rnd (desiredLength - aLength)) aLength of
                    (b, d, l, evs) \<Rightarrow> (b, 0, d, l, evs))
               else (aIndex, aPercent, desiredLength, aLength, []))
        in if bIndex = segmentCount s then Inr (getMaxT s, ev0 # evs)
           else
             (case solveSegment_fl rnd E s bIndex desiredLength' bLength aPercent' of
                Inl e \<Rightarrow> Inl e
              | Inr bPercent \<Rightarrow>
                  Inr (globalT_fl rnd s bIndex bPercent,
                       ev0 # evs @ [Solve bIndex desiredLength' bLength aPercent'])))"

subsection \<open>The partitions, rounded\<close>

definition totalArcLength_fl :: "(real \<Rightarrow> real) \<Rightarrow> 'v spline \<Rightarrow> real" where
  "totalArcLength_fl rnd s = foldl (\<lambda>total segmentLength. rnd (total + segmentLength)) 0
     (segmentLengths s)"

definition cutPiece_fl ::
  "(real \<Rightarrow> real) \<Rightarrow> numerics \<Rightarrow> 'v spline \<Rightarrow> real list \<Rightarrow> real \<Rightarrow> scan_state \<Rightarrow>
     error + (real \<times> scan_state \<times> event)" where
  "cutPiece_fl rnd E s lens lengthPerPiece st =
     (case advance_fl rnd lens (aIndex st) (segmentRemainder st) lengthPerPiece of
        Inl e \<Rightarrow> Inl e
      | Inr (bIndex, segmentRemainder', desiredLength) \<Rightarrow>
          let aPercent = (if aIndex st = bIndex then previousPercent st else 0) in
          (case solveSegment_fl rnd E s bIndex desiredLength segmentRemainder' aPercent of
             Inl e \<Rightarrow> Inl e
           | Inr bPercent \<Rightarrow>
               Inr (globalT_fl rnd s bIndex bPercent,
                    \<lparr>segmentRemainder = rnd (segmentRemainder' - desiredLength),
                     previousPercent = bPercent,
                     aIndex = bIndex\<rparr>,
                    Solve bIndex desiredLength segmentRemainder' aPercent)))"

function pieceLoop_fl ::
  "(real \<Rightarrow> real) \<Rightarrow> numerics \<Rightarrow> 'v spline \<Rightarrow> real list \<Rightarrow> real \<Rightarrow> nat \<Rightarrow> nat \<Rightarrow> scan_state \<Rightarrow>
     real list \<Rightarrow> event list \<Rightarrow> error + (real list \<times> event list)" where
  "pieceLoop_fl rnd E s lens lengthPerPiece bound i st pieces evs =
     (if i < bound then
        (case cutPiece_fl rnd E s lens lengthPerPiece st of
           Inl e \<Rightarrow> Inl e
         | Inr (t, st', ev) \<Rightarrow>
             pieceLoop_fl rnd E s lens lengthPerPiece bound (i + 1) st' (pieces[i := t])
               (evs @ [ev]))
      else Inr (pieces, evs))"
  by pat_completeness auto
termination
  by (relation "measure (\<lambda>(rnd, E, s, lens, l, bound, i, st, ps, evs). bound - i)") auto

declare pieceLoop_fl.simps [simp del]

definition partition_fl ::
  "(real \<Rightarrow> real) \<Rightarrow> numerics \<Rightarrow> 'v spline \<Rightarrow> real \<Rightarrow> error + (real list \<times> event list)" where
  "partition_fl rnd E s lengthPerPiece =
     (let lens = segmentLengths s;
          total = totalArcLength_fl rnd s
      in if lengthPerPiece = 0 then Inl NonFinite
      else
        (case size_t_of (rnd (total / lengthPerPiece)) of
           Inl e \<Rightarrow> Inl e
         | Inr k \<Rightarrow>
             let pieces = replicate ((k + 1) mod 2 ^ 64) (0::real) in
             if lens = [] then Inl OutOfRange
             else
               pieceLoop_fl rnd E s lens lengthPerPiece (length pieces) 1
                 \<lparr>segmentRemainder = lens ! 0, previousPercent = 0, aIndex = 0\<rparr>
                 pieces (tableEvents s)))"

text \<open>
  The equal-count partition (lines 159--221), rounded. The divisor \<open>n\<close> is converted
  to \<open>floating_t\<close>, which rounds it.
\<close>

definition partitionN_fl ::
  "(real \<Rightarrow> real) \<Rightarrow> numerics \<Rightarrow> 'v spline \<Rightarrow> nat \<Rightarrow> error + (real list \<times> event list)" where
  "partitionN_fl rnd E s n =
     (let lens = segmentLengths s;
          total = totalArcLength_fl rnd s;
          lengthPerPiece = rnd (total / rnd (real n));
          pieces = replicate ((n + 1) mod 2 ^ 64) (0::real)
      in if \<not> (0 < length pieces \<and> n < length pieces) then Inl OutOfRange
      else
        let pieces = pieces[0 := 0];
            pieces = pieces[n := getMaxT s]
        in if lens = [] then Inl OutOfRange
           else
             pieceLoop_fl rnd E s lens lengthPerPiece n 1
               \<lparr>segmentRemainder = lens ! 0, previousPercent = 0, aIndex = 0\<rparr>
               pieces (tableEvents s))"

subsection \<open>Notions the properties are stated with\<close>

fun isSolve :: "event \<Rightarrow> bool" where
  "isSolve (Solve i d m a) = True"
| "isSolve (ArcLength i p q) = False"

definition solverCalls :: "event list \<Rightarrow> nat" where
  "solverCalls evs = length (filter isSolve evs)"

text \<open>The segment index of each solver invocation, in the order of the calls.\<close>

fun solveIndices :: "event list \<Rightarrow> nat list" where
  "solveIndices [] = []"
| "solveIndices (Solve i d m a # evs) = i # solveIndices evs"
| "solveIndices (ArcLength i p q # evs) = solveIndices evs"

text \<open>
  The local fraction of a global parameter as lines 50--52 compute it; the arc
  lengths that lie ahead of a parameter \<open>a\<close>, segment by segment (what is left of
  the segment of \<open>a\<close>, then every later segment); their sum, the arc length that
  remains from \<open>a\<close> to the end of the curve.
\<close>

definition localPercent :: "(real \<Rightarrow> real) \<Rightarrow> 'v spline \<Rightarrow> real \<Rightarrow> real" where
  "localPercent rnd s a =
     (let i = segmentForT s a
      in rnd (rnd (a - segmentT s i) / rnd (segmentT s (i + 1) - segmentT s i)))"

definition aheadLengths :: "(real \<Rightarrow> real) \<Rightarrow> 'v spline \<Rightarrow> real \<Rightarrow> real list" where
  "aheadLengths rnd s a =
     (let i = segmentForT s a
      in segmentArcLength s i (localPercent rnd s a) 1 # drop (i + 1) (segmentLengths s))"


text \<open>
  Walking a distance \<open>d\<close> over a list of lengths: \<open>Some\<close> of the distance still to
  go when every length of the list is shorter than the distance still to go at
  it, \<open>None\<close> when one of them is not.
\<close>

fun skipAll :: "(real \<Rightarrow> real) \<Rightarrow> real \<Rightarrow> real list \<Rightarrow> real option" where
  "skipAll rnd d [] = Some d"
| "skipAll rnd d (l # ls) = (if l < d then skipAll rnd (rnd (d - l)) ls else None)"

subsection \<open>Test curves\<close>

text \<open>
  Two straight segments of lengths 3 and 7 over the parameter ranges \<open>[0, 1]\<close> and
  \<open>[1, 2]\<close>, with one-dimensional vectors.
\<close>

definition twoLines :: "real spline" where
  "twoLines =
     \<lparr>segmentCount = 2,
      segmentT = (\<lambda>i. real i),
      segmentForT = (\<lambda>t. if t < 1 then 0 else 1),
      segmentArcLength = (\<lambda>i p q. (if i = 0 then 3 else 7) * (q - p)),
      getCurvature = (\<lambda>t. (if t < 1 then 3 else 7, 0)),
      getMaxT = 2,
      vec_length = abs,
      vec_div = (/),
      dotProduct = (*)\<rparr>"


definition oneLine :: "real spline" where
  "oneLine =
     \<lparr>segmentCount = 1,
      segmentT = (\<lambda>i. real i),
      segmentForT = (\<lambda>t. 0),
      segmentArcLength = (\<lambda>i p q. 3602879701896397 / 36028797018963968 * (q - p)),
      getCurvature = (\<lambda>t. (3602879701896397 / 36028797018963968, 0)),
      getMaxT = 1,
      vec_length = abs,
      vec_div = (/),
      dotProduct = (*)\<rparr>"

section \<open>Properties\<close>

subsection \<open>The table of segment lengths\<close>



lemma length_segmentLengths [simp]: "length (segmentLengths s) = segmentCount s"
  by (simp add: segmentLengths_def)

lemma nth_segmentLengths [simp]:
  "i < segmentCount s \<Longrightarrow> segmentLengths s ! i = segmentArcLength s i 0 1"
  by (simp add: segmentLengths_def)



lemma solverCalls_tableEvents [simp]: "solverCalls (tableEvents s) = 0"
  by (simp add: solverCalls_def tableEvents_def filter_map o_def)

lemma solverCalls_append [simp]: "solverCalls (xs @ ys) = solverCalls xs + solverCalls ys"
  by (simp add: solverCalls_def)

lemma solverCalls_Cons_ArcLength [simp]: "solverCalls (ArcLength i p q # evs) = solverCalls evs"
  by (simp add: solverCalls_def)

lemma solverCalls_Cons_Solve [simp]: "solverCalls (Solve i d m a # evs) = Suc (solverCalls evs)"
  by (simp add: solverCalls_def)

lemma solverCalls_Nil [simp]: "solverCalls [] = 0"
  by (simp add: solverCalls_def)

lemma solverCalls_queries [simp]: "solverCalls (map (\<lambda>i. ArcLength i 0 1) xs) = 0"
  by (induction xs) simp_all

subsection \<open>The test curve and the root finder of the specification, evaluated\<close>

lemma upt_2: "[0..<2] = [0, 1]"
  by (simp add: numeral_2_eq_2)

lemma twoLines_lengths: "segmentLengths twoLines = [3, 7]"
  by (simp add: segmentLengths_def twoLines_def upt_2)

lemma twoLines_total: "totalArcLength twoLines = 10"
  by (simp add: totalArcLength_def twoLines_lengths)

lemma twoLines_events: "tableEvents twoLines = [ArcLength 0 0 1, ArcLength 1 0 1]"
  by (simp add: tableEvents_def twoLines_def upt_2)

lemma twoLines_count: "segmentCount twoLines = 2"
  by (simp add: twoLines_def)


lemma halley_loop_unfold:
  "halley_loop f lo hi k x =
     (if k = 0 then (x, 0)
      else (case f x of (f0, f1, f2) \<Rightarrow>
        if f0 = 0 then (x, 0)
        else
          let denom = 2 * f1 * f1 - f0 * f2;
              x' = (if denom = 0 then x else x - 2 * f0 * f1 / denom);
              x'' = max lo (min hi x')
          in (case halley_loop f lo hi (k - 1) x'' of (r, n) \<Rightarrow> (r, Suc n))))"
  by (cases k) (auto simp: Let_def split: prod.splits)

lemma halley_spec_root:
  assumes "fst (f guess) = 0"
  shows "halley_spec f guess lo hi k = guess"
  using assms by (cases k) (auto simp: halley_spec_def split: prod.splits)

subsection \<open>A piece longer than the curve\<close>



subsection \<open>The scan of the partitions\<close>

lemma advance_le: "advance lens b r d = Inr (b', r', d') \<Longrightarrow> b \<le> b'"
proof (induction lens b r d rule: advance.induct)
  case (1 lens b r d)
  show ?case
  proof (cases "r < d \<and> b + 1 < length lens")
    case True
    with "1.prems" have "advance lens (b + 1) (lens ! (b + 1)) (d - r) = Inr (b', r', d')"
      by (subst (asm) advance.simps) simp
    with "1.IH" True show ?thesis by auto
  next
    case False
    with "1.prems" show ?thesis
      by (subst (asm) advance.simps) (auto split: if_splits)
  qed
qed

lemma cutPiece_event:
  assumes "cutPiece E s lens L st = Inr (t, st', ev)"
  shows "aIndex st \<le> aIndex st' \<and> (\<exists>d m a. ev = Solve (aIndex st') d m a)"
proof -
  from assms obtain b' r' d' where
    r: "advance lens (aIndex st) (segmentRemainder st) L = Inr (b', r', d')"
    by (auto simp: cutPiece_def split: sum.splits)
  from assms r show ?thesis
    using advance_le [OF r]
    by (auto simp: cutPiece_def Let_def split: sum.splits)
qed

lemma solveIndices_append [simp]: "solveIndices (xs @ ys) = solveIndices xs @ solveIndices ys"
  by (induction xs rule: solveIndices.induct) simp_all

lemma solveIndices_tableEvents [simp]: "solveIndices (tableEvents s) = []"
proof -
  have "solveIndices (map (\<lambda>i. ArcLength i 0 1) xs) = []" for xs :: "nat list"
    by (induction xs) simp_all
  then show ?thesis by (simp add: tableEvents_def)
qed

lemma pieceLoop_trace:
  assumes "pieceLoop E s lens L bound i st ps evs = Inr (ps', evs')"
  shows "\<exists>sv. evs' = evs @ sv \<and> (\<forall>e \<in> set sv. isSolve e)
              \<and> sorted (solveIndices sv) \<and> (\<forall>j \<in> set (solveIndices sv). aIndex st \<le> j)
              \<and> length sv = bound - i \<and> length ps' = length ps"
  using assms
proof (induction E s lens L bound i st ps evs rule: pieceLoop.induct)
  case (1 E s lens L bound i st ps evs)
  show ?case
  proof (cases "i < bound")
    case False
    with "1.prems" show ?thesis by (subst (asm) pieceLoop.simps) simp
  next
    case True
    with "1.prems" obtain t st' ev where
      c: "cutPiece E s lens L st = Inr (t, st', ev)"
      and r: "pieceLoop E s lens L bound (i + 1) st' (ps[i := t]) (evs @ [ev]) = Inr (ps', evs')"
      by (subst (asm) pieceLoop.simps) (auto split: sum.splits)
    from cutPiece_event [OF c] obtain d m a where
      le: "aIndex st \<le> aIndex st'" and ev: "ev = Solve (aIndex st') d m a"
      by blast
    from "1.IH" [OF True c refl refl r]
    obtain sv where
      sv: "evs' = (evs @ [ev]) @ sv" "\<forall>e \<in> set sv. isSolve e" "sorted (solveIndices sv)"
          "\<forall>j \<in> set (solveIndices sv). aIndex st' \<le> j" "length sv = bound - (i + 1)"
          "length ps' = length (ps[i := t])"
      by blast
    have "evs' = evs @ (ev # sv)" using sv(1) by simp
    moreover have "\<forall>e \<in> set (ev # sv). isSolve e" using sv(2) ev by simp
    moreover have "sorted (solveIndices (ev # sv))" using sv(3,4) ev by simp
    moreover have "\<forall>j \<in> set (solveIndices (ev # sv)). aIndex st \<le> j"
      using sv(4) ev le by auto
    moreover have "length (ev # sv) = bound - i" using sv(5) True by simp
    moreover have "length ps' = length ps" using sv(6) by simp
    ultimately show ?thesis by blast
  qed
qed

lemma count_list_solves:
  "\<forall>e \<in> set sv. isSolve e \<Longrightarrow> count_list sv (ArcLength i p q) = 0"
  by (induction sv) auto

lemma count_list_table:
  "count_list (map (\<lambda>i. ArcLength i 0 1) [0..<n]) (ArcLength i 0 1) = (if i < n then 1 else 0)"
  by (induction n) auto

lemma solverCalls_solves: "\<forall>e \<in> set sv. isSolve e \<Longrightarrow> solverCalls sv = length sv"
  by (induction sv) (auto simp: solverCalls_def)

lemma partition_cases:
  assumes "partition_by_length E s L = Inr (ps, evs)"
  shows "\<exists>k. L \<noteq> 0 \<and> size_t_of (totalArcLength s / L) = Inr k \<and> segmentLengths s \<noteq> []
             \<and> pieceLoop E s (segmentLengths s) L ((k + 1) mod 2 ^ 64) 1
                  \<lparr>segmentRemainder = segmentLengths s ! 0, previousPercent = 0, aIndex = 0\<rparr>
                  (replicate ((k + 1) mod 2 ^ 64) 0) (tableEvents s) = Inr (ps, evs)"
  using assms
  by (auto simp: partition_by_length_def Let_def split: if_splits sum.splits)

lemma partitionN_cases:
  assumes "partitionN E s n = Inr (ps, evs)"
  shows "n + 1 < 2 ^ 64 \<and> segmentLengths s \<noteq> []
         \<and> pieceLoop E s (segmentLengths s) (totalArcLength s / real n) n 1
              \<lparr>segmentRemainder = segmentLengths s ! 0, previousPercent = 0, aIndex = 0\<rparr>
              ((replicate (n + 1) 0)[0 := 0, n := getMaxT s]) (tableEvents s) = Inr (ps, evs)"
proof -
  have lt: "n < (n + 1) mod 2 ^ 64"
    using assms by (auto simp: partitionN_def Let_def split: if_splits)
  have "(n + 1) mod 2 ^ 64 \<le> n + 1" by (rule mod_less_eq_dividend)
  with lt have eq: "(n + 1) mod 2 ^ 64 = n + 1" by linarith
  then have small: "n + 1 < (2::nat) ^ 64"
    by (metis mod_less_divisor pos2 zero_less_power)
  show ?thesis
    using assms eq small
    by (auto simp: partitionN_def Let_def split: if_splits)
qed

subsection \<open>Segment index and table queries during a partition\<close>

lemma partition_trace:
  assumes "partition_by_length E s L = Inr (ps, evs)"
  shows "\<exists>sv. evs = tableEvents s @ sv \<and> (\<forall>e \<in> set sv. isSolve e)
              \<and> sorted (solveIndices sv) \<and> length sv = length ps - 1"
proof -
  from partition_cases [OF assms] obtain k where
    r: "pieceLoop E s (segmentLengths s) L ((k + 1) mod 2 ^ 64) 1
          \<lparr>segmentRemainder = segmentLengths s ! 0, previousPercent = 0, aIndex = 0\<rparr>
          (replicate ((k + 1) mod 2 ^ 64) 0) (tableEvents s) = Inr (ps, evs)"
    by blast
  from pieceLoop_trace [OF r] show ?thesis by auto
qed

lemma partitionN_trace:
  assumes "partitionN E s n = Inr (ps, evs)"
  shows "\<exists>sv. evs = tableEvents s @ sv \<and> (\<forall>e \<in> set sv. isSolve e)
              \<and> sorted (solveIndices sv) \<and> length sv = n - 1 \<and> length ps = n + 1"
proof -
  from partitionN_cases [OF assms] have
    r: "pieceLoop E s (segmentLengths s) (totalArcLength s / real n) n 1
          \<lparr>segmentRemainder = segmentLengths s ! 0, previousPercent = 0, aIndex = 0\<rparr>
          ((replicate (n + 1) 0)[0 := 0, n := getMaxT s]) (tableEvents s) = Inr (ps, evs)"
    by blast
  from pieceLoop_trace [OF r] obtain sv where
    sv: "evs = tableEvents s @ sv" "\<forall>e \<in> set sv. isSolve e" "sorted (solveIndices sv)"
        "length sv = n - 1"
        "length ps = length ((replicate (n + 1) (0::real))[0 := 0, n := getMaxT s])"
    by blast
  have "length ((replicate (n + 1) (0::real))[0 := 0, n := getMaxT s]) = n + 1"
    by (simp only: length_list_update length_replicate)
  with sv show ?thesis by auto
qed

lemma table_then_solves:
  assumes "evs = tableEvents s @ sv" "\<forall>e \<in> set sv. isSolve e" "sorted (solveIndices sv)"
  shows "sorted (solveIndices evs)
         \<and> (\<forall>i < segmentCount s. count_list evs (ArcLength i 0 1) = 1)"
proof -
  have "sorted (solveIndices evs)" using assms(1,3) by simp
  moreover have "count_list evs (ArcLength i 0 1) = 1" if "i < segmentCount s" for i
  proof -
    have "count_list (tableEvents s) (ArcLength i 0 1) = 1"
      using that by (simp add: tableEvents_def count_list_table)
    then show ?thesis using assms(1,2) by (simp add: count_list_solves)
  qed
  ultimately show ?thesis by blast
qed

text \<open>
  Claim C9. In a call of \<open>partition\<close> or of \<open>partitionN\<close> that returns, the
  segment index at which the solver is invoked never decreases from one boundary
  to the next, and the engine queries the full-range length
  \<open>segmentArcLength(i, 0, 1)\<close> of every segment exactly once, however many
  boundaries are cut (the queries are those that fill the table; what the root
  finder evaluates inside an invocation of the solver is not an engine query).
\<close>

theorem partition_index_monotone_table_once:
  "(partition_by_length E s L = Inr (ps, evs) \<longrightarrow>
      sorted (solveIndices evs)
      \<and> (\<forall>i < segmentCount s. count_list evs (ArcLength i 0 1) = 1))
   \<and> (partitionN E s n = Inr (ps', evs') \<longrightarrow>
      sorted (solveIndices evs')
      \<and> (\<forall>i < segmentCount s. count_list evs' (ArcLength i 0 1) = 1))"
proof (intro conjI impI)
  assume r: "partition_by_length E s L = Inr (ps, evs)"
  from partition_trace [OF r] obtain sv where
    sv: "evs = tableEvents s @ sv" "\<forall>e \<in> set sv. isSolve e" "sorted (solveIndices sv)"
    by blast
  from table_then_solves [OF sv]
  show "sorted (solveIndices evs)"
    and "\<forall>i < segmentCount s. count_list evs (ArcLength i 0 1) = 1"
    by simp_all
next
  assume r: "partitionN E s n = Inr (ps', evs')"
  from partitionN_trace [OF r] obtain sv where
    sv: "evs' = tableEvents s @ sv" "\<forall>e \<in> set sv. isSolve e" "sorted (solveIndices sv)"
    by blast
  from table_then_solves [OF sv]
  show "sorted (solveIndices evs')"
    and "\<forall>i < segmentCount s. count_list evs' (ArcLength i 0 1) = 1"
    by simp_all
qed

lemma twoLines_solveSegment:
  assumes "i < 2" "m \<noteq> 0" "m = (if i = 0 then 3 else 7) * (1 - a)"
  shows "solveSegment (specNumerics dg) twoLines i d m a = Inr (a + d / (if i = 0 then 3 else 7))"
proof -
  let ?c = "if i = 0 then 3 else 7 :: real"
  let ?g = "a + d / m * (1 - a)"
  have na: "1 - a \<noteq> 0" using assms(2,3) by auto
  have g: "?g = a + d / ?c" using assms(3) na by simp
  have "fst (solveFunction twoLines i d a ?g) = ?c * (?g - a) - d"
    by (simp add: solveFunction_def twoLines_def Let_def split: prod.splits)
  also have "\<dots> = 0" unfolding g by simp
  finally have root: "fst (solveFunction twoLines i d a ?g) = 0" .
  show ?thesis
    using assms(2) g
      halley_spec_root [where f = "solveFunction twoLines i d a" and guess = ?g, OF root]
    by (simp add: solveSegment_def specNumerics_def Let_def)
qed

lemma twoLines_partition_4:
  "partition_by_length (specNumerics 53) twoLines 4
   = Inr ([0, 8 / 7, 12 / 7],
          [ArcLength 0 0 1, ArcLength 1 0 1, Solve 1 1 7 0, Solve 1 4 6 (1 / 7)])"
  by (simp add: partition_by_length_def twoLines_total twoLines_lengths twoLines_events
      size_t_of_def pieceLoop.simps cutPiece_def advance.simps twoLines_solveSegment
      globalT_def)
     (simp add: twoLines_def numeral_eq_Suc)

lemma twoLines_partitionN_4:
  "partitionN (specNumerics 53) twoLines 4
   = Inr ([0, 5 / 6, 9 / 7, 23 / 14, 2],
          [ArcLength 0 0 1, ArcLength 1 0 1,
           Solve 0 (5 / 2) 3 0, Solve 1 2 7 0, Solve 1 (5 / 2) 5 (2 / 7)])"
  by (simp add: partitionN_def twoLines_total twoLines_lengths twoLines_events
      pieceLoop.simps cutPiece_def advance.simps twoLines_solveSegment
      globalT_def)
     (simp add: twoLines_def numeral_eq_Suc)

theorem partition_index_monotone_table_once_witness:
  "partition_by_length (specNumerics 53) twoLines 4
     = Inr ([0, 8 / 7, 12 / 7],
            [ArcLength 0 0 1, ArcLength 1 0 1, Solve 1 1 7 0, Solve 1 4 6 (1 / 7)])
   \<and> sorted (solveIndices
        [ArcLength 0 0 1, ArcLength 1 0 1, Solve 1 1 7 0, Solve 1 4 6 (1 / 7)])
   \<and> count_list [ArcLength 0 0 1, ArcLength 1 0 1, Solve 1 1 7 0, Solve 1 4 6 (1 / 7)]
        (ArcLength 1 0 1) = 1
   \<and> partitionN (specNumerics 53) twoLines 4
     = Inr ([0, 5 / 6, 9 / 7, 23 / 14, 2],
            [ArcLength 0 0 1, ArcLength 1 0 1,
             Solve 0 (5 / 2) 3 0, Solve 1 2 7 0, Solve 1 (5 / 2) 5 (2 / 7)])
   \<and> sorted (solveIndices
        [ArcLength 0 0 1, ArcLength 1 0 1,
         Solve 0 (5 / 2) 3 0, Solve 1 2 7 0, Solve 1 (5 / 2) 5 (2 / 7)])
   \<and> count_list [ArcLength 0 0 1, ArcLength 1 0 1,
         Solve 0 (5 / 2) 3 0, Solve 1 2 7 0, Solve 1 (5 / 2) 5 (2 / 7)]
        (ArcLength 0 0 1) = 1"
  using partition_index_monotone_table_once
    [of "specNumerics 53" twoLines 4 "[0, 8 / 7, 12 / 7]"
        "[ArcLength 0 0 1, ArcLength 1 0 1, Solve 1 1 7 0, Solve 1 4 6 (1 / 7)]"
        4 "[0, 5 / 6, 9 / 7, 23 / 14, 2]"
        "[ArcLength 0 0 1, ArcLength 1 0 1,
          Solve 0 (5 / 2) 3 0, Solve 1 2 7 0, Solve 1 (5 / 2) 5 (2 / 7)]"]
    twoLines_partition_4 twoLines_partitionN_4
  by (simp add: twoLines_count)

subsection \<open>The segment solver on the root finder of the specification\<close>

lemma halley_loop_bracket:
  "lo \<le> x \<Longrightarrow> x \<le> hi \<Longrightarrow>
     lo \<le> fst (halley_loop f lo hi k x) \<and> fst (halley_loop f lo hi k x) \<le> hi"
proof (induction k arbitrary: x)
  case 0
  then show ?case by simp
next
  case (Suc k)
  obtain f0 f1 f2 where fx: "f x = (f0, f1, f2)" by (cases "f x") auto
  show ?case
  proof (cases "f0 = 0")
    case True
    with fx Suc.prems show ?thesis by simp
  next
    case False
    define x' where "x' = (if 2 * f1 * f1 - f0 * f2 = 0 then x
                           else x - 2 * f0 * f1 / (2 * f1 * f1 - f0 * f2))"
    have lohi: "lo \<le> hi" using Suc.prems by simp
    have in_br: "lo \<le> max lo (min hi x')" "max lo (min hi x') \<le> hi"
      using lohi by simp_all
    have "fst (halley_loop f lo hi (Suc k) x) = fst (halley_loop f lo hi k (max lo (min hi x')))"
      using fx False by (simp add: x'_def Let_def split: prod.splits)
    with Suc.IH [OF in_br] show ?thesis by simp
  qed
qed

lemma solveSegment_spec:
  "solveSegment (specNumerics dg) s i d m a =
     (if m = 0 then Inl NonFinite
      else Inr (fst (halley_loop (solveFunction s i d a) a 1 (dg div 2) (a + d / m * (1 - a)))))"
  by (simp add: solveSegment_def specNumerics_def halley_spec_def Let_def)

lemma guess_in_bracket:
  assumes "0 \<le> a" "a \<le> 1" "0 < d" "d \<le> (m::real)"
  shows "a \<le> a + d / m * (1 - a)" and "a + d / m * (1 - a) \<le> 1"
proof -
  have m: "0 < m" using assms(3,4) by simp
  have q: "0 \<le> d / m" "d / m \<le> 1" using assms(3,4) m by simp_all
  have r: "0 \<le> 1 - a" using assms(2) by simp
  show "a \<le> a + d / m * (1 - a)" using mult_nonneg_nonneg [OF q(1) r] by simp
  have "d / m * (1 - a) \<le> 1 * (1 - a)" by (rule mult_right_mono [OF q(2) r])
  then show "a + d / m * (1 - a) \<le> 1" by simp
qed

text \<open>
  Claim C5, on the root finder of the specification. For \<open>aPercent\<close> in \<open>[0, 1]\<close>
  and \<open>0 < desiredLength \<le> maxLength\<close>, \<open>solveSegment\<close> returns a fraction in
  \<open>[aPercent, 1]\<close>: the initial guess lies in the bracket that the solver passes
  to the root finder, and the root finder keeps every iterate in the bracket.
\<close>

theorem solveSegment_in_bracket:
  assumes "0 \<le> aPercent" "aPercent \<le> 1" "0 < desiredLength" "desiredLength \<le> maxLength"
  shows "\<exists>bPercent.
           solveSegment (specNumerics dg) s segmentIndex desiredLength maxLength aPercent
             = Inr bPercent
           \<and> aPercent \<le> bPercent \<and> bPercent \<le> 1"
proof -
  let ?g = "aPercent + desiredLength / maxLength * (1 - aPercent)"
  let ?b = "fst (halley_loop (solveFunction s segmentIndex desiredLength aPercent)
                  aPercent 1 (dg div 2) ?g)"
  have m: "maxLength \<noteq> 0" using assms(3,4) by simp
  have g: "aPercent \<le> ?g" "?g \<le> 1" by (rule guess_in_bracket [OF assms])+
  have b: "aPercent \<le> ?b \<and> ?b \<le> 1" by (rule halley_loop_bracket [OF g])
  have e: "solveSegment (specNumerics dg) s segmentIndex desiredLength maxLength aPercent
           = Inr ?b"
    unfolding solveSegment_spec using m by (simp only: if_False)
  show ?thesis unfolding e using b by blast
qed

theorem solveSegment_in_bracket_witness:
  "solveSegment (specNumerics 53) twoLines 1 4 6 (1 / 7) = Inr (5 / 7)
   \<and> (1::real) / 7 \<le> 5 / 7 \<and> (5::real) / 7 \<le> 1"
proof -
  have "solveSegment (specNumerics 53) twoLines 1 4 6 (1 / 7)
        = Inr (1 / 7 + 4 / (if (1::nat) = 0 then 3 else 7))"
    by (rule twoLines_solveSegment) simp_all
  then have e: "solveSegment (specNumerics 53) twoLines 1 4 6 (1 / 7) = Inr (5 / 7)"
    by simp
  have "\<exists>b. solveSegment (specNumerics 53) twoLines 1 4 6 (1 / 7) = Inr b
             \<and> 1 / 7 \<le> b \<and> b \<le> 1"
    by (rule solveSegment_in_bracket) simp_all
  then show ?thesis unfolding e by simp
qed

subsection \<open>The rounding of \<open>double\<close>\<close>




text \<open>Unfolding rules that evaluate the rounding of a literal.\<close>

lemma binade_literal:
  "binade (numeral m) =
     (if 2 \<le> (numeral m :: real) then binade (numeral m / 2) + 1 else 0)"
  "binade (numeral m / numeral n) =
     (if 2 \<le> (numeral m / numeral n :: real) then binade (numeral m / numeral n / 2) + 1
      else if (numeral m / numeral n :: real) < 1 then binade (2 * (numeral m / numeral n)) - 1
      else 0)"
  "binade (1 / numeral n) =
     (if (1 / numeral n :: real) < 1 then binade (2 * (1 / numeral n)) - 1 else 0)"
  "binade 1 = 0"
  by (subst binade.simps, simp)+

lemma round_double_literal:
  "round_double (numeral m) =
     of_int (round_even (numeral m / 2 powi (binade (numeral m) - 52)))
       * 2 powi (binade (numeral m) - 52)"
  "round_double (numeral m / numeral n) =
     of_int (round_even (numeral m / numeral n / 2 powi (binade (numeral m / numeral n) - 52)))
       * 2 powi (binade (numeral m / numeral n) - 52)"
  "round_double (1 / numeral n) =
     of_int (round_even (1 / numeral n / 2 powi (binade (1 / numeral n) - 52)))
       * 2 powi (binade (1 / numeral n) - 52)"
  by (simp_all add: round_double_def Let_def)

lemmas round_double_eval = round_double_literal binade_literal round_even_def Let_def

lemma round_double_0 [simp]: "round_double 0 = 0"
  by (simp add: round_double_def)

lemma round_double_1 [simp]: "round_double 1 = 1"
  by (simp add: round_double_def round_even_def binade_literal)

subsection \<open>The exact embedding is the rounded one with the identity as rounding\<close>

lemma solveFunction_fl_exact: "solveFunction_fl (\<lambda>x. x) s i d a = solveFunction s i d a"
  by (simp add: solveFunction_fl_def solveFunction_def fun_eq_iff)

lemma solveSegment_fl_exact: "solveSegment_fl (\<lambda>x. x) E s i d m a = solveSegment E s i d m a"
  by (simp add: solveSegment_fl_def solveSegment_def solveFunction_fl_exact)

lemma globalT_fl_exact: "globalT_fl (\<lambda>x. x) s i p = globalT s i p"
  by (simp add: globalT_fl_def globalT_def)

lemma totalArcLength_fl_exact: "totalArcLength_fl (\<lambda>x. x) s = totalArcLength s"
  by (simp add: totalArcLength_fl_def totalArcLength_def)

lemma advance_fl_exact: "advance_fl (\<lambda>x. x) lens b r d = advance lens b r d"
proof (induction lens b r d rule: advance.induct)
  case (1 lens b r d)
  show ?case
  proof (cases "r < d \<and> b + 1 < length lens")
    case True
    with "1.IH" show ?thesis
      by (subst advance_fl.simps, subst advance.simps) simp
  next
    case False
    then show ?thesis
      by (subst advance_fl.simps, subst advance.simps) auto
  qed
qed

lemma cutPiece_fl_exact: "cutPiece_fl (\<lambda>x. x) E s lens L st = cutPiece E s lens L st"
  by (simp add: cutPiece_fl_def cutPiece_def advance_fl_exact solveSegment_fl_exact
      globalT_fl_exact Let_def split: sum.splits prod.splits)

lemma pieceLoop_fl_exact:
  "pieceLoop_fl (\<lambda>x. x) E s lens L bound i st ps evs = pieceLoop E s lens L bound i st ps evs"
proof (induction E s lens L bound i st ps evs rule: pieceLoop.induct)
  case (1 E s lens L bound i st ps evs)
  show ?case
  proof (cases "i < bound")
    case False
    then show ?thesis by (subst pieceLoop_fl.simps, subst pieceLoop.simps) simp
  next
    case True
    show ?thesis
    proof (cases "cutPiece E s lens L st")
      case (Inl e)
      then show ?thesis
        using True by (subst pieceLoop_fl.simps, subst pieceLoop.simps) (simp add: cutPiece_fl_exact)
    next
      case (Inr x)
      obtain t st' ev where x: "x = (t, st', ev)" by (cases x) auto
      from "1.IH" [OF True Inr [unfolded x] refl refl]
      show ?thesis
        using True Inr x
        by (subst pieceLoop_fl.simps, subst pieceLoop.simps) (simp add: cutPiece_fl_exact)
    qed
  qed
qed

lemma partition_fl_exact: "partition_fl (\<lambda>x. x) E s L = partition_by_length E s L"
  by (simp add: partition_fl_def partition_by_length_def totalArcLength_fl_exact
      pieceLoop_fl_exact Let_def split: sum.splits)

lemma partitionN_fl_exact: "partitionN_fl (\<lambda>x. x) E s n = partitionN E s n"
  by (simp add: partitionN_fl_def partitionN_def totalArcLength_fl_exact
      pieceLoop_fl_exact Let_def)

subsection \<open>Segment index and table queries of a partition under rounding\<close>

text \<open>
  The order of the solver invocations and the queries that fill the table do not
  depend on the rounding: what is proved above of the exact partitions holds of
  the rounded ones, whatever \<open>rnd\<close> is.
\<close>

lemma advance_fl_le: "advance_fl rnd lens b r d = Inr (b', r', d') \<Longrightarrow> b \<le> b'"
proof (induction rnd lens b r d rule: advance_fl.induct)
  case (1 rnd lens b r d)
  show ?case
  proof (cases "r < d \<and> b + 1 < length lens")
    case True
    with "1.prems"
    have "advance_fl rnd lens (b + 1) (lens ! (b + 1)) (rnd (d - r)) = Inr (b', r', d')"
      by (subst (asm) advance_fl.simps) simp
    with "1.IH" True show ?thesis by auto
  next
    case False
    with "1.prems" show ?thesis
      by (subst (asm) advance_fl.simps) (auto split: if_splits)
  qed
qed

lemma cutPiece_fl_event:
  assumes "cutPiece_fl rnd E s lens L st = Inr (t, st', ev)"
  shows "aIndex st \<le> aIndex st' \<and> (\<exists>d m a. ev = Solve (aIndex st') d m a)"
proof -
  from assms obtain b' r' d' where
    r: "advance_fl rnd lens (aIndex st) (segmentRemainder st) L = Inr (b', r', d')"
    by (auto simp: cutPiece_fl_def split: sum.splits)
  from assms r show ?thesis
    using advance_fl_le [OF r]
    by (auto simp: cutPiece_fl_def Let_def split: sum.splits)
qed

lemma pieceLoop_fl_trace:
  assumes "pieceLoop_fl rnd E s lens L bound i st ps evs = Inr (ps', evs')"
  shows "\<exists>sv. evs' = evs @ sv \<and> (\<forall>e \<in> set sv. isSolve e)
              \<and> sorted (solveIndices sv) \<and> (\<forall>j \<in> set (solveIndices sv). aIndex st \<le> j)
              \<and> length sv = bound - i \<and> length ps' = length ps"
  using assms
proof (induction rnd E s lens L bound i st ps evs rule: pieceLoop_fl.induct)
  case (1 rnd E s lens L bound i st ps evs)
  show ?case
  proof (cases "i < bound")
    case False
    with "1.prems" show ?thesis by (subst (asm) pieceLoop_fl.simps) simp
  next
    case True
    with "1.prems" obtain t st' ev where
      c: "cutPiece_fl rnd E s lens L st = Inr (t, st', ev)"
      and r: "pieceLoop_fl rnd E s lens L bound (i + 1) st' (ps[i := t]) (evs @ [ev])
              = Inr (ps', evs')"
      by (subst (asm) pieceLoop_fl.simps) (auto split: sum.splits)
    from cutPiece_fl_event [OF c] obtain d m a where
      le: "aIndex st \<le> aIndex st'" and ev: "ev = Solve (aIndex st') d m a"
      by blast
    from "1.IH" [OF True c refl refl r]
    obtain sv where
      sv: "evs' = (evs @ [ev]) @ sv" "\<forall>e \<in> set sv. isSolve e" "sorted (solveIndices sv)"
          "\<forall>j \<in> set (solveIndices sv). aIndex st' \<le> j" "length sv = bound - (i + 1)"
          "length ps' = length (ps[i := t])"
      by blast
    have "evs' = evs @ (ev # sv)" using sv(1) by simp
    moreover have "\<forall>e \<in> set (ev # sv). isSolve e" using sv(2) ev by simp
    moreover have "sorted (solveIndices (ev # sv))" using sv(3,4) ev by simp
    moreover have "\<forall>j \<in> set (solveIndices (ev # sv)). aIndex st \<le> j"
      using sv(4) ev le by auto
    moreover have "length (ev # sv) = bound - i" using sv(5) True by simp
    moreover have "length ps' = length ps" using sv(6) by simp
    ultimately show ?thesis by blast
  qed
qed

lemma partition_fl_trace:
  assumes "partition_fl rnd E s L = Inr (ps, evs)"
  shows "sorted (solveIndices evs)
         \<and> (\<forall>i < segmentCount s. count_list evs (ArcLength i 0 1) = 1)"
proof -
  from assms obtain k where
    r: "pieceLoop_fl rnd E s (segmentLengths s) L ((k + 1) mod 2 ^ 64) 1
          \<lparr>segmentRemainder = segmentLengths s ! 0, previousPercent = 0, aIndex = 0\<rparr>
          (replicate ((k + 1) mod 2 ^ 64) 0) (tableEvents s) = Inr (ps, evs)"
    by (auto simp: partition_fl_def Let_def split: if_splits sum.splits)
  from pieceLoop_fl_trace [OF r] obtain sv where
    sv: "evs = tableEvents s @ sv" "\<forall>e \<in> set sv. isSolve e" "sorted (solveIndices sv)"
    by blast
  from table_then_solves [OF sv] show ?thesis .
qed

lemma partitionN_fl_trace:
  assumes "partitionN_fl rnd E s n = Inr (ps, evs)"
  shows "sorted (solveIndices evs)
         \<and> (\<forall>i < segmentCount s. count_list evs (ArcLength i 0 1) = 1)"
proof -
  from assms obtain L ps0 where
    r: "pieceLoop_fl rnd E s (segmentLengths s) L n 1
          \<lparr>segmentRemainder = segmentLengths s ! 0, previousPercent = 0, aIndex = 0\<rparr>
          ps0 (tableEvents s) = Inr (ps, evs)"
    by (auto simp: partitionN_fl_def Let_def split: if_splits)
  from pieceLoop_fl_trace [OF r] obtain sv where
    sv: "evs = tableEvents s @ sv" "\<forall>e \<in> set sv. isSolve e" "sorted (solveIndices sv)"
    by blast
  from table_then_solves [OF sv] show ?thesis .
qed

subsection \<open>The scan of the point query\<close>

lemma drop_segmentLengths:
  assumes "b < segmentCount s"
  shows "drop b (segmentLengths s) = segmentArcLength s b 0 1 # drop (b + 1) (segmentLengths s)"
  using assms by (metis Cons_nth_drop_Suc Suc_eq_plus1 length_segmentLengths nth_segmentLengths)

text \<open>
  The loop of lines 64--76 when every remaining segment is shorter than the
  distance still to go at it: the loop is left with \<open>bIndex = segmentCount\<close>.
\<close>

lemma scanSegments_exhaust:
  assumes "b < segmentCount s"
    and "skipAll rnd d (drop (b + 1) (segmentLengths s)) = Some d'"
  shows "\<exists>l'. scanSegments rnd s b d l
           = (segmentCount s, d', l', map (\<lambda>i. ArcLength i 0 1) [b + 1..<segmentCount s])"
  using assms
proof (induction rnd s b d l rule: scanSegments.induct)
  case (1 rnd s b d l)
  show ?case
  proof (cases "b + 1 < segmentCount s")
    case False
    then have e: "b + 1 = segmentCount s" using "1.prems"(1) by simp
    then have "d' = d" using "1.prems"(2) by simp
    then show ?thesis using e by (subst scanSegments.simps) simp
  next
    case True
    let ?l = "segmentArcLength s (b + 1) 0 1"
    have dr: "drop (b + 1) (segmentLengths s) = ?l # drop (b + 1 + 1) (segmentLengths s)"
      by (rule drop_segmentLengths [OF True])
    have lt: "?l < d" and sk: "skipAll rnd (rnd (d - ?l)) (drop (b + 1 + 1) (segmentLengths s)) = Some d'"
      using "1.prems"(2) unfolding dr by (simp_all split: if_splits)
    from "1.IH" [OF True refl lt True sk] obtain l' where
      r: "scanSegments rnd s (b + 1) (rnd (d - ?l)) ?l
           = (segmentCount s, d', l', map (\<lambda>i. ArcLength i 0 1) [b + 1 + 1..<segmentCount s])"
      by blast
    have "[b + 1..<segmentCount s] = (b + 1) # [b + 1 + 1..<segmentCount s]"
      using True by (simp add: upt_conv_Cons)
    then show ?thesis
      using True lt r by (subst scanSegments.simps) (simp add: Let_def)
  qed
qed

text \<open>
  The loop when \<open>k\<close> further segments are shorter than the distance still to go
  and the next one is not: the loop is left by the \<open>break\<close> of line 74, at that
  segment.
\<close>

lemma scanSegments_stop:
  assumes "b + 1 + k < segmentCount s"
    and "skipAll rnd d (take k (drop (b + 1) (segmentLengths s))) = Some d'"
    and "\<not> segmentArcLength s (b + 1 + k) 0 1 < d'"
  shows "scanSegments rnd s b d l
           = (b + 1 + k, d', segmentArcLength s (b + 1 + k) 0 1,
              map (\<lambda>i. ArcLength i 0 1) [b + 1..<b + 1 + k + 1])"
  using assms
proof (induction k arbitrary: b d l)
  case 0
  then have "d' = d" by simp
  with 0 show ?case by (subst scanSegments.simps) (simp add: Let_def)
next
  case (Suc k)
  let ?l = "segmentArcLength s (b + 1) 0 1"
  have in_range: "b + 1 < segmentCount s" using Suc.prems(1) by simp
  have dr: "drop (b + 1) (segmentLengths s) = ?l # drop (b + 1 + 1) (segmentLengths s)"
    by (rule drop_segmentLengths [OF in_range])
  have lt: "?l < d"
    and sk: "skipAll rnd (rnd (d - ?l)) (take k (drop (b + 1 + 1) (segmentLengths s))) = Some d'"
    using Suc.prems(2) unfolding dr by (simp_all split: if_splits)
  have a: "b + 1 + 1 + k < segmentCount s" using Suc.prems(1) by simp
  have c: "\<not> segmentArcLength s (b + 1 + 1 + k) 0 1 < d'" using Suc.prems(3) by simp
  from Suc.IH [OF a sk c, of ?l]
  have r: "scanSegments rnd s (b + 1) (rnd (d - ?l)) ?l
        = (b + 1 + 1 + k, d', segmentArcLength s (b + 1 + 1 + k) 0 1,
           map (\<lambda>i. ArcLength i 0 1) [b + 1 + 1..<b + 1 + 1 + k + 1])" .
  have "[b + 1..<b + 1 + Suc k + 1] = (b + 1) # [b + 1 + 1..<b + 1 + 1 + k + 1]"
    by (simp add: upt_conv_Cons)
  then show ?case
    using in_range lt r by (subst scanSegments.simps) (simp add: Let_def)
qed

text \<open>
  Walking a distance over a list of lengths either passes every length or stops
  at a first length that is not shorter than the distance still to go. In exact
  arithmetic the distance still to go is the distance minus the lengths passed.
  Under a rounding that loses at most the relative amount \<open>u\<close>, a distance that
  exceeds the sum of \<open>n\<close> non-negative lengths by the factor \<open>(1 - u)\<^sup>n\<close> passes all
  of them.
\<close>

lemma skipAll_cases:
  "(\<exists>d'. skipAll rnd d ls = Some d')
   \<or> (\<exists>k d'. k < length ls \<and> skipAll rnd d (take k ls) = Some d' \<and> \<not> ls ! k < d')"
proof (induction ls arbitrary: d)
  case Nil
  then show ?case by simp
next
  case (Cons l ls)
  show ?case
  proof (cases "l < d")
    case False
    then have "0 < length (l # ls) \<and> skipAll rnd d (take 0 (l # ls)) = Some d
               \<and> \<not> (l # ls) ! 0 < d"
      by simp
    then show ?thesis by blast
  next
    case True
    from Cons.IH [of "rnd (d - l)"] show ?thesis
    proof
      assume "\<exists>d'. skipAll rnd (rnd (d - l)) ls = Some d'"
      then show ?thesis using True by simp
    next
      assume "\<exists>k d'. k < length ls \<and> skipAll rnd (rnd (d - l)) (take k ls) = Some d'
                \<and> \<not> ls ! k < d'"
      then obtain k d' where
        k: "k < length ls" "skipAll rnd (rnd (d - l)) (take k ls) = Some d'" "\<not> ls ! k < d'"
        by blast
      have "Suc k < length (l # ls) \<and> skipAll rnd d (take (Suc k) (l # ls)) = Some d'
            \<and> \<not> (l # ls) ! Suc k < d'"
        using k True by simp
      then show ?thesis by blast
    qed
  qed
qed

lemma skipAll_exact:
  "skipAll (\<lambda>x. x) d ls = Some d' \<Longrightarrow> d' = d - sum_list ls"
proof (induction ls arbitrary: d)
  case Nil
  then show ?case by simp
next
  case (Cons l ls)
  then have "skipAll (\<lambda>x. x) (d - l) ls = Some d'" by (simp split: if_splits)
  from Cons.IH [OF this] show ?case by simp
qed

lemma skipAll_exact_less:
  "skipAll (\<lambda>x. x) d ls = Some d' \<Longrightarrow> ls \<noteq> [] \<Longrightarrow> sum_list ls < d"
proof (induction ls arbitrary: d)
  case Nil
  then show ?case by simp
next
  case (Cons l ls)
  then have lt: "l < d" and sk: "skipAll (\<lambda>x. x) (d - l) ls = Some d'"
    by (simp_all split: if_splits)
  show ?case
  proof (cases "ls = []")
    case True
    then show ?thesis using lt by simp
  next
    case False
    from Cons.IH [OF sk False] show ?thesis by simp
  qed
qed




lemma solveLength_exhaust:
  assumes "segmentForT s a < segmentCount s"
    and "rnd (segmentT s (segmentForT s a + 1) - segmentT s (segmentForT s a)) \<noteq> 0"
    and "skipAll rnd d (aheadLengths rnd s a) = Some d'"
  shows "solveLength rnd E s a d
         = Inr (getMaxT s,
                ArcLength (segmentForT s a) (localPercent rnd s a) 1
                # map (\<lambda>j. ArcLength j 0 1) [segmentForT s a + 1..<segmentCount s])"
proof -
  let ?i = "segmentForT s a"
  let ?aP = "localPercent rnd s a"
  let ?aL = "segmentArcLength s ?i ?aP 1"
  have sk: "skipAll rnd d (?aL # drop (?i + 1) (segmentLengths s)) = Some d'"
    using assms(3) by (simp add: aheadLengths_def Let_def)
  then have lt: "?aL < d"
    and rest: "skipAll rnd (rnd (d - ?aL)) (drop (?i + 1) (segmentLengths s)) = Some d'"
    by (simp_all split: if_splits)
  from scanSegments_exhaust [OF assms(1) rest, of ?aL] obtain l' where
    r: "scanSegments rnd s ?i (rnd (d - ?aL)) ?aL
          = (segmentCount s, d', l', map (\<lambda>j. ArcLength j 0 1) [?i + 1..<segmentCount s])"
    by blast
  have aP: "rnd (rnd (a - segmentT s ?i) / rnd (segmentT s (?i + 1) - segmentT s ?i)) = ?aP"
    by (simp add: localPercent_def Let_def)
  show ?thesis
    unfolding solveLength_def Let_def aP using assms(2) lt r by simp
qed

lemma solveLength_stop:
  assumes "segmentForT s a < segmentCount s"
    and "rnd (segmentT s (segmentForT s a + 1) - segmentT s (segmentForT s a)) \<noteq> 0"
    and "k < length (aheadLengths rnd s a)"
    and "skipAll rnd d (take k (aheadLengths rnd s a)) = Some d'"
    and "\<not> aheadLengths rnd s a ! k < d'"
  shows "solveLength rnd E s a d
         = (case solveSegment_fl rnd E s (segmentForT s a + k) d' (aheadLengths rnd s a ! k)
                   (if k = 0 then localPercent rnd s a else 0) of
              Inl e \<Rightarrow> Inl e
            | Inr bPercent \<Rightarrow>
                Inr (globalT_fl rnd s (segmentForT s a + k) bPercent,
                     ArcLength (segmentForT s a) (localPercent rnd s a) 1
                     # map (\<lambda>j. ArcLength j 0 1) [segmentForT s a + 1..<segmentForT s a + k + 1]
                     @ [Solve (segmentForT s a + k) d' (aheadLengths rnd s a ! k)
                          (if k = 0 then localPercent rnd s a else 0)]))"
proof -
  let ?i = "segmentForT s a"
  let ?aP = "localPercent rnd s a"
  let ?aL = "segmentArcLength s ?i ?aP 1"
  let ?rest = "drop (?i + 1) (segmentLengths s)"
  have ah: "aheadLengths rnd s a = ?aL # ?rest" by (simp add: aheadLengths_def Let_def)
  have aP: "rnd (rnd (a - segmentT s ?i) / rnd (segmentT s (?i + 1) - segmentT s ?i)) = ?aP"
    by (simp add: localPercent_def Let_def)
  show ?thesis
  proof (cases k)
    case 0
    then have d: "d' = d" using assms(4) by simp
    have nlt: "\<not> ?aL < d" using assms(5) 0 d ah by simp
    have ne: "?i \<noteq> segmentCount s" using assms(1) by simp
    show ?thesis
      unfolding solveLength_def Let_def aP using assms(2) nlt ne 0 d ah
      by (simp split: sum.splits)
  next
    case (Suc j)
    have jlt: "?i + 1 + j < segmentCount s" using assms(1,3) Suc ah by simp
    have lt: "?aL < d"
      and sk: "skipAll rnd (rnd (d - ?aL)) (take j ?rest) = Some d'"
      using assms(4) unfolding ah Suc by (simp_all split: if_splits)
    have nth: "aheadLengths rnd s a ! k = segmentArcLength s (?i + 1 + j) 0 1"
      unfolding ah Suc using jlt by simp
    have nlt: "\<not> segmentArcLength s (?i + 1 + j) 0 1 < d'" using assms(5) nth by simp
    from scanSegments_stop [OF jlt sk nlt, of ?aL]
    have r: "scanSegments rnd s ?i (rnd (d - ?aL)) ?aL
          = (?i + 1 + j, d', segmentArcLength s (?i + 1 + j) 0 1,
             map (\<lambda>j. ArcLength j 0 1) [?i + 1..<?i + 1 + j + 1])" .
    have ne: "?i + 1 + j \<noteq> segmentCount s" using jlt by simp
    have ix: "?i + k = ?i + 1 + j" "?i + k + 1 = ?i + 1 + j + 1" using Suc by simp_all
    show ?thesis
      unfolding solveLength_def Let_def aP nth ix
      using assms(2) lt r ne Suc by (simp split: sum.splits)
  qed
qed

subsection \<open>The test curves under the rounding of \<open>double\<close>\<close>








lemma oneLine_lengths: "segmentLengths oneLine = [3602879701896397 / 36028797018963968]"
  by (simp add: segmentLengths_def oneLine_def)

lemma twoLines_total_fl: "totalArcLength_fl round_double twoLines = 10"
  by (simp add: totalArcLength_fl_def twoLines_lengths round_double_eval)

lemma oneLine_total_fl:
  "totalArcLength_fl round_double oneLine = 3602879701896397 / 36028797018963968"
  by (simp add: totalArcLength_fl_def oneLine_lengths round_double_eval)

lemmas solveLength_eval =
  solveLength_def scanSegments.simps solveSegment_fl_def specNumerics_def
  halley_spec_root solveFunction_fl_def globalT_fl_def round_double_eval

lemma twoLines_solveLength_mid:
  "solveLength round_double (specNumerics 53) twoLines 0 (13 / 2)
     = Inr (3 / 2, [ArcLength 0 0 1, ArcLength 1 0 1, Solve 1 (7 / 2) 7 0])"
  by (simp add: solveLength_eval twoLines_def)

lemma twoLines_ahead_exact: "aheadLengths (\<lambda>x. x) twoLines 0 = [3, 7]"
  by (simp add: aheadLengths_def localPercent_def twoLines_lengths Let_def)
     (simp add: twoLines_def)

lemma twoLines_solveLength_exact:
  "solveLength (\<lambda>x. x) (specNumerics 53) twoLines 0 (13 / 2)
     = Inr (3 / 2, [ArcLength 0 0 1, ArcLength 1 0 1, Solve 1 (7 / 2) 7 0])"
  by (simp add: solveLength_eval twoLines_def)

subsection \<open>Saturation\<close>




subsection \<open>The segment the point query hands to the solver\<close>

text \<open>
  Claim C8, as stated, fails: past the end of the curve the query returns from
  line 81 and the solver is not invoked at all. On the test curve \<open>twoLines\<close>
  (total length 10) the query for distance 11 from parameter 0 makes two length
  queries and no solver invocation.
\<close>

theorem solveLength_no_solver_call:
  "solveLength round_double (specNumerics 53) twoLines 0 11
     = Inr (2, [ArcLength 0 0 1, ArcLength 1 0 1])
   \<and> solverCalls [ArcLength 0 0 1, ArcLength 1 0 1] \<noteq> 1"
  by (simp add: solveLength_eval twoLines_def)

text \<open>
  Claim C8, amended. Let \<open>a\<close> lie in a valid segment and let the point query
  return. Either every length ahead of \<open>a\<close> is shorter than the distance still to
  go at it; then the query returns \<open>getMaxT\<close> and the solver is not invoked. Or
  the scan stops at the first of the segments ahead, the \<open>k\<close>-th after that of \<open>a\<close>,
  whose length is not shorter than the distance \<open>d'\<close> still to go at it; then the
  engine makes one length query for each segment up to that one and invokes the
  solver exactly once, on that segment, with the distance \<open>d'\<close>, the length
  available there and the starting fraction (that of \<open>a\<close> in its own segment, 0 in
  a later one), and returns the global parameter of the fraction the solver
  returns. That segment contains the answer: in exact arithmetic \<open>d'\<close> is \<open>d\<close> minus
  the lengths passed, the lengths passed sum to less than \<open>d\<close> and with the length
  of that segment to at least \<open>d\<close>.
\<close>

theorem solveLength_localizes:
  assumes "segmentForT s a < segmentCount s"
    and "solveLength rnd E s a d = Inr (t, evs)"
  shows "(\<exists>d'. skipAll rnd d (aheadLengths rnd s a) = Some d'
            \<and> t = getMaxT s \<and> solverCalls evs = 0)
       \<or> (\<exists>k d' bPercent.
            k < length (aheadLengths rnd s a)
            \<and> skipAll rnd d (take k (aheadLengths rnd s a)) = Some d'
            \<and> d' \<le> aheadLengths rnd s a ! k
            \<and> ((\<forall>x. rnd x = x) \<longrightarrow>
                   d' = d - sum_list (take k (aheadLengths rnd s a))
                   \<and> (0 < k \<longrightarrow> sum_list (take k (aheadLengths rnd s a)) < d)
                   \<and> d \<le> sum_list (take (Suc k) (aheadLengths rnd s a)))
            \<and> solveSegment_fl rnd E s (segmentForT s a + k) d' (aheadLengths rnd s a ! k)
                 (if k = 0 then localPercent rnd s a else 0) = Inr bPercent
            \<and> t = globalT_fl rnd s (segmentForT s a + k) bPercent
            \<and> evs = ArcLength (segmentForT s a) (localPercent rnd s a) 1
                # map (\<lambda>j. ArcLength j 0 1) [segmentForT s a + 1..<segmentForT s a + k + 1]
                @ [Solve (segmentForT s a + k) d' (aheadLengths rnd s a ! k)
                     (if k = 0 then localPercent rnd s a else 0)]
            \<and> solverCalls evs = 1)"
proof -
  have span: "rnd (segmentT s (segmentForT s a + 1) - segmentT s (segmentForT s a)) \<noteq> 0"
    using assms(2) by (auto simp: solveLength_def Let_def split: if_splits)
  from skipAll_cases [of rnd d "aheadLengths rnd s a"] show ?thesis
  proof
    assume "\<exists>d'. skipAll rnd d (aheadLengths rnd s a) = Some d'"
    then obtain d' where sk: "skipAll rnd d (aheadLengths rnd s a) = Some d'" by blast
    from assms(2) have "t = getMaxT s \<and> solverCalls evs = 0"
      unfolding solveLength_exhaust [OF assms(1) span sk] by auto
    with sk show ?thesis by blast
  next
    assume "\<exists>k d'. k < length (aheadLengths rnd s a)
              \<and> skipAll rnd d (take k (aheadLengths rnd s a)) = Some d'
              \<and> \<not> aheadLengths rnd s a ! k < d'"
    then obtain k d' where
      k: "k < length (aheadLengths rnd s a)"
      and sk: "skipAll rnd d (take k (aheadLengths rnd s a)) = Some d'"
      and nlt: "\<not> aheadLengths rnd s a ! k < d'"
      by blast
    let ?aP = "if k = 0 then localPercent rnd s a else 0"
    let ?evs = "ArcLength (segmentForT s a) (localPercent rnd s a) 1
                # map (\<lambda>j. ArcLength j 0 1) [segmentForT s a + 1..<segmentForT s a + k + 1]
                @ [Solve (segmentForT s a + k) d' (aheadLengths rnd s a ! k) ?aP]"
    from assms(2) obtain bPercent where
      bp: "solveSegment_fl rnd E s (segmentForT s a + k) d' (aheadLengths rnd s a ! k) ?aP
             = Inr bPercent"
      and t: "t = globalT_fl rnd s (segmentForT s a + k) bPercent"
      and evs: "evs = ?evs"
      unfolding solveLength_stop [OF assms(1) span k sk nlt]
      by (auto split: sum.splits)
    have le: "d' \<le> aheadLengths rnd s a ! k" using nlt by simp
    have ex: "(\<forall>x. rnd x = x) \<longrightarrow>
                d' = d - sum_list (take k (aheadLengths rnd s a))
                \<and> (0 < k \<longrightarrow> sum_list (take k (aheadLengths rnd s a)) < d)
                \<and> d \<le> sum_list (take (Suc k) (aheadLengths rnd s a))"
    proof
      assume "\<forall>x. rnd x = x"
      then have "rnd = (\<lambda>x. x)" by (simp add: fun_eq_iff)
      with sk have ske: "skipAll (\<lambda>x. x) d (take k (aheadLengths rnd s a)) = Some d'"
        by simp
      have e1: "d' = d - sum_list (take k (aheadLengths rnd s a))"
        by (rule skipAll_exact [OF ske])
      have e2: "0 < k \<longrightarrow> sum_list (take k (aheadLengths rnd s a)) < d"
      proof
        assume "0 < k"
        then have "take k (aheadLengths rnd s a) \<noteq> []" using k by auto
        from skipAll_exact_less [OF ske this]
        show "sum_list (take k (aheadLengths rnd s a)) < d" .
      qed
      have "sum_list (take (Suc k) (aheadLengths rnd s a))
            = sum_list (take k (aheadLengths rnd s a)) + aheadLengths rnd s a ! k"
        using k by (simp add: take_Suc_conv_app_nth)
      with e1 le have e3: "d \<le> sum_list (take (Suc k) (aheadLengths rnd s a))" by simp
      from e1 e2 e3
      show "d' = d - sum_list (take k (aheadLengths rnd s a))
            \<and> (0 < k \<longrightarrow> sum_list (take k (aheadLengths rnd s a)) < d)
            \<and> d \<le> sum_list (take (Suc k) (aheadLengths rnd s a))"
        by blast
    qed
    have calls: "solverCalls evs = 1" unfolding evs by simp
    from k sk le ex bp t evs calls show ?thesis by blast
  qed
qed

theorem solveLength_localizes_witness:
  "segmentForT twoLines 0 < segmentCount twoLines
   \<and> solveLength (\<lambda>x. x) (specNumerics 53) twoLines 0 (13 / 2)
       = Inr (3 / 2, [ArcLength 0 0 1, ArcLength 1 0 1, Solve 1 (7 / 2) 7 0])
   \<and> skipAll (\<lambda>x. x) (13 / 2) (aheadLengths (\<lambda>x. x) twoLines 0) = None
   \<and> skipAll (\<lambda>x. x) (13 / 2) (take 1 (aheadLengths (\<lambda>x. x) twoLines 0)) = Some (7 / 2)
   \<and> (7::real) / 2 \<le> aheadLengths (\<lambda>x. x) twoLines 0 ! 1
   \<and> sum_list (take 1 (aheadLengths (\<lambda>x. x) twoLines 0)) < 13 / 2
   \<and> 13 / 2 \<le> sum_list (take (Suc 1) (aheadLengths (\<lambda>x. x) twoLines 0))
   \<and> solverCalls [ArcLength 0 0 1, ArcLength 1 0 1, Solve 1 (7 / 2) 7 0] = 1
   \<and> ((\<exists>d'. skipAll (\<lambda>x. x) (13 / 2) (aheadLengths (\<lambda>x. x) twoLines 0) = Some d'
            \<and> 3 / 2 = getMaxT twoLines
            \<and> solverCalls [ArcLength 0 0 1, ArcLength 1 0 1, Solve 1 (7 / 2) 7 0] = 0)
       \<or> (\<exists>k d' bPercent.
            k < length (aheadLengths (\<lambda>x. x) twoLines 0)
            \<and> skipAll (\<lambda>x. x) (13 / 2) (take k (aheadLengths (\<lambda>x. x) twoLines 0)) = Some d'
            \<and> d' \<le> aheadLengths (\<lambda>x. x) twoLines 0 ! k
            \<and> ((\<forall>x::real. x = x) \<longrightarrow>
                   d' = 13 / 2 - sum_list (take k (aheadLengths (\<lambda>x. x) twoLines 0))
                   \<and> (0 < k \<longrightarrow> sum_list (take k (aheadLengths (\<lambda>x. x) twoLines 0)) < 13 / 2)
                   \<and> 13 / 2 \<le> sum_list (take (Suc k) (aheadLengths (\<lambda>x. x) twoLines 0)))
            \<and> solveSegment_fl (\<lambda>x. x) (specNumerics 53) twoLines
                 (segmentForT twoLines 0 + k) d' (aheadLengths (\<lambda>x. x) twoLines 0 ! k)
                 (if k = 0 then localPercent (\<lambda>x. x) twoLines 0 else 0) = Inr bPercent
            \<and> 3 / 2 = globalT_fl (\<lambda>x. x) twoLines (segmentForT twoLines 0 + k) bPercent
            \<and> [ArcLength 0 0 1, ArcLength 1 0 1, Solve 1 (7 / 2) 7 0]
                = ArcLength (segmentForT twoLines 0) (localPercent (\<lambda>x. x) twoLines 0) 1
                  # map (\<lambda>j. ArcLength j 0 1)
                      [segmentForT twoLines 0 + 1..<segmentForT twoLines 0 + k + 1]
                  @ [Solve (segmentForT twoLines 0 + k) d'
                       (aheadLengths (\<lambda>x. x) twoLines 0 ! k)
                       (if k = 0 then localPercent (\<lambda>x. x) twoLines 0 else 0)]
            \<and> solverCalls [ArcLength 0 0 1, ArcLength 1 0 1, Solve 1 (7 / 2) 7 0] = 1))"
proof -
  have v: "segmentForT twoLines 0 < segmentCount twoLines" by (simp add: twoLines_def)
  have r: "solveLength (\<lambda>x. x) (specNumerics 53) twoLines 0 (13 / 2)
       = Inr (3 / 2, [ArcLength 0 0 1, ArcLength 1 0 1, Solve 1 (7 / 2) 7 0])"
    by (rule twoLines_solveLength_exact)
  have a: "skipAll (\<lambda>x. x) (13 / 2) (aheadLengths (\<lambda>x. x) twoLines 0) = None"
    by (simp add: twoLines_ahead_exact)
  have b: "skipAll (\<lambda>x. x) (13 / 2) (take 1 (aheadLengths (\<lambda>x. x) twoLines 0)) = Some (7 / 2)"
    by (simp add: twoLines_ahead_exact)
  have c: "(7::real) / 2 \<le> aheadLengths (\<lambda>x. x) twoLines 0 ! 1"
    by (simp add: twoLines_ahead_exact)
  have d: "solverCalls [ArcLength 0 0 1, ArcLength 1 0 1, Solve 1 (7 / 2) 7 0] = 1"
    by simp
  have e: "sum_list (take 1 (aheadLengths (\<lambda>x. x) twoLines 0)) < 13 / 2"
    by (simp add: twoLines_ahead_exact)
  have f: "13 / 2 \<le> sum_list (take (Suc 1) (aheadLengths (\<lambda>x. x) twoLines 0))"
    by (simp add: twoLines_ahead_exact)
  note solveLength_localizes [OF v r]
  with v r a b c d e f show ?thesis by blast
qed

subsection \<open>Distance zero at the end of the curve\<close>

text \<open>
  Claim C6 fails on the code at the end of the curve. On the test curve
  \<open>twoLines\<close>, at \<open>a = getMaxT = 2\<close> no arc length is left in the segment of \<open>a\<close>.
  For the distance 0 the test of line 58 fails, \<open>solveSegment\<close> is called with
  \<open>desiredLength = 0\<close> and \<open>maxLength = 0\<close>, and line 15 divides 0 by 0: the query
  has no finite value, while the query for the greater distance 1 returns 2.
  Where arc length is left in the segment of \<open>a\<close> the distance 0 gives \<open>a\<close> back,
  as the comment of line 43 has it: from \<open>a = 1/2\<close> the query for distance 0
  returns \<open>1/2\<close>.
\<close>

theorem solveLength_zero_distance_at_end:
  "solveLength round_double (specNumerics 53) twoLines 2 0 = Inl NonFinite
   \<and> solveLength round_double (specNumerics 53) twoLines 2 1 = Inr (2, [ArcLength 1 1 1])
   \<and> solveLength round_double (specNumerics 53) twoLines (1 / 2) 0
       = Inr (1 / 2, [ArcLength 0 (1 / 2) 1, Solve 0 0 (3 / 2) (1 / 2)])"
  by (simp add: solveLength_eval twoLines_def)

subsection \<open>The scan of the partition past the end of the table\<close>

lemma cutPiece_fl_overrun:
  assumes "advance_fl rnd lens (aIndex st) (segmentRemainder st) L = Inl e"
  shows "cutPiece_fl rnd E s lens L st = Inl e"
  using assms by (simp add: cutPiece_fl_def)

lemma cutPiece_fl_next:
  assumes "advance_fl rnd lens (aIndex st) (segmentRemainder st) L = Inr (b, r, d)"
    and "r \<noteq> 0"
  shows "\<exists>t bp ev. cutPiece_fl rnd E s lens L st
           = Inr (t, \<lparr>segmentRemainder = rnd (r - d), previousPercent = bp, aIndex = b\<rparr>, ev)"
  using assms by (simp add: cutPiece_fl_def solveSegment_fl_def Let_def)

text \<open>
  A round whose scan runs past the table ends the call. A round that cuts a piece
  hands the next round a remainder and a segment that do not depend on what the
  solver returned.
\<close>

lemma pieceLoop_fl_overrun:
  assumes "i < bound"
    and "advance_fl rnd lens b r L = Inl e"
  shows "pieceLoop_fl rnd E s lens L bound i
           \<lparr>segmentRemainder = r, previousPercent = p, aIndex = b\<rparr> ps evs = Inl e"
proof -
  have "cutPiece_fl rnd E s lens L \<lparr>segmentRemainder = r, previousPercent = p, aIndex = b\<rparr>
        = Inl e"
    by (rule cutPiece_fl_overrun) (simp add: assms(2))
  then show ?thesis using assms(1) by (subst pieceLoop_fl.simps) simp
qed

lemma pieceLoop_fl_round:
  assumes "i < bound"
    and "advance_fl rnd lens b r L = Inr (b', r', d')"
    and "r' \<noteq> 0"
    and "\<And>p' ps' evs'. pieceLoop_fl rnd E s lens L bound (i + 1)
           \<lparr>segmentRemainder = rnd (r' - d'), previousPercent = p', aIndex = b'\<rparr> ps' evs'
           = Inl e"
  shows "pieceLoop_fl rnd E s lens L bound i
           \<lparr>segmentRemainder = r, previousPercent = p, aIndex = b\<rparr> ps evs = Inl e"
proof -
  have "\<exists>t bp ev. cutPiece_fl rnd E s lens L
          \<lparr>segmentRemainder = r, previousPercent = p, aIndex = b\<rparr>
        = Inr (t, \<lparr>segmentRemainder = rnd (r' - d'), previousPercent = bp, aIndex = b'\<rparr>, ev)"
    by (rule cutPiece_fl_next) (simp_all add: assms(2,3))
  then obtain t bp ev where
    c: "cutPiece_fl rnd E s lens L \<lparr>segmentRemainder = r, previousPercent = p, aIndex = b\<rparr>
        = Inr (t, \<lparr>segmentRemainder = rnd (r' - d'), previousPercent = bp, aIndex = b'\<rparr>, ev)"
    by blast
  show ?thesis
    using assms(1) c assms(4) by (subst pieceLoop_fl.simps) simp
qed

text \<open>
  Claim C4 fails on the code in \<open>double\<close> arithmetic. On the test curve \<open>twoLines\<close>
  (lengths 3 and 7) with \<open>lengthPerPiece = 3.3333333333333335\<close> the quotient of
  line 110 rounds to 3, so that \<open>partition\<close> allocates 4 entries where
  \<open>\<lfloor>totalArcLength / lengthPerPiece\<rfloor> + 1\<close> is 3. The third round then looks for a
  piece the curve does not have: the remainder \<open>3.3333333333333326\<close> of the
  last segment is shorter than the piece, and the scan of lines 125--129, which
  has no test of \<open>bIndex\<close> against the segment count, reads \<open>segmentLengths[2]\<close> of a
  table of two entries. No sequence of boundaries is returned, whatever the
  root finder does.
\<close>

theorem partition_overruns_table:
  "partition_fl round_double E twoLines (7505999378950827 / 2251799813685248)
     = Inl OutOfRange
   \<and> size_t_of (round_double (totalArcLength_fl round_double twoLines
         / (7505999378950827 / 2251799813685248))) = Inr 3
   \<and> nat \<lfloor>totalArcLength twoLines / (7505999378950827 / 2251799813685248)\<rfloor> + 1 = 3"
proof -
  let ?L = "7505999378950827 / 2251799813685248 :: real"
  let ?lens = "[3, 7] :: real list"
  have q: "size_t_of (round_double (totalArcLength_fl round_double twoLines / ?L)) = Inr 3"
    by (simp add: twoLines_total_fl size_t_of_def round_double_eval)
  have x: "nat \<lfloor>totalArcLength twoLines / ?L\<rfloor> + 1 = 3"
    by (simp add: totalArcLength_def twoLines_lengths)
  have r3: "pieceLoop_fl round_double E twoLines ?lens ?L 4 3
              \<lparr>segmentRemainder = 7505999378950825 / 2251799813685248, previousPercent = p,
               aIndex = 1\<rparr> ps evs = Inl OutOfRange" for p ps evs
    by (rule pieceLoop_fl_overrun) (simp_all add: advance_fl.simps)
  have r2: "pieceLoop_fl round_double E twoLines ?lens ?L 4 2
              \<lparr>segmentRemainder = 3752999689475413 / 562949953421312, previousPercent = p,
               aIndex = 1\<rparr> ps evs = Inl OutOfRange" for p ps evs
  proof (rule pieceLoop_fl_round)
    show "(2::nat) < 4" by simp
    show "advance_fl round_double ?lens 1 (3752999689475413 / 562949953421312) ?L
          = Inr (1, 3752999689475413 / 562949953421312, ?L)"
      by (simp add: advance_fl.simps)
    show "(3752999689475413 / 562949953421312 :: real) \<noteq> 0" by simp
    have e: "round_double (3752999689475413 / 562949953421312 - ?L)
             = 7505999378950825 / 2251799813685248"
      by (simp add: round_double_eval)
    have i: "(2::nat) + 1 = 3" by simp
    show "pieceLoop_fl round_double E twoLines ?lens ?L 4 (2 + 1)
           \<lparr>segmentRemainder = round_double (3752999689475413 / 562949953421312 - ?L),
            previousPercent = p', aIndex = 1\<rparr> ps' evs' = Inl OutOfRange" for p' ps' evs'
      unfolding e i by (rule r3)
  qed
  have r1: "pieceLoop_fl round_double E twoLines ?lens ?L 4 1
              \<lparr>segmentRemainder = 3, previousPercent = 0, aIndex = 0\<rparr> ps evs
            = Inl OutOfRange" for ps evs
  proof (rule pieceLoop_fl_round)
    show "(1::nat) < 4" by simp
    show "advance_fl round_double ?lens 0 3 ?L
          = Inr (1, 7, 750599937895083 / 2251799813685248)"
      by (simp add: advance_fl.simps round_double_eval)
    show "(7::real) \<noteq> 0" by simp
    have e: "round_double (7 - 750599937895083 / 2251799813685248)
             = 3752999689475413 / 562949953421312"
      by (simp add: round_double_eval)
    have i: "(1::nat) + 1 = 2" by simp
    show "pieceLoop_fl round_double E twoLines ?lens ?L 4 (1 + 1)
           \<lparr>segmentRemainder = round_double (7 - 750599937895083 / 2251799813685248),
            previousPercent = p', aIndex = 1\<rparr> ps' evs' = Inl OutOfRange" for p' ps' evs'
      unfolding e i by (rule r2)
  qed
  have "partition_fl round_double E twoLines ?L = Inl OutOfRange"
    using q r1 by (simp add: partition_fl_def twoLines_lengths Let_def)
  with q x show ?thesis by blast
qed

text \<open>
  Claim C7 fails on the code for \<open>partition\<close>: its scan is not bounded by the
  segment count. On the curve \<open>oneLine\<close> (one segment of length \<open>0.1\<close>) with
  \<open>lengthPerPiece = 0.02\<close> the 6 entries allocated are those of the exact quotient,
  but the remainders \<open>0.08\<close>, \<open>0.06\<close>, \<open>0.039999999999999994\<close>,
  \<open>0.019999999999999993\<close> are rounded at each piece, and in the fifth round the
  remainder is shorter than the piece: the scan of lines 125--129 leaves the
  table of one entry, where the scan of \<open>solveLength\<close> (line 64) would have
  stopped at the segment count.
\<close>

theorem partition_scan_unbounded:
  "partition_fl round_double E oneLine (5764607523034235 / 288230376151711744) = Inl OutOfRange
   \<and> size_t_of (round_double (totalArcLength_fl round_double oneLine / (5764607523034235 / 288230376151711744))) = Inr 5
   \<and> nat \<lfloor>totalArcLength oneLine / (5764607523034235 / 288230376151711744)\<rfloor> + 1 = 6"
proof -
  let ?L = "5764607523034235 / 288230376151711744 :: real"
  let ?lens = "[3602879701896397 / 36028797018963968] :: real list"
  have q: "size_t_of (round_double (totalArcLength_fl round_double oneLine / ?L)) = Inr 5"
    by (simp add: oneLine_total_fl size_t_of_def round_double_eval)
  have x: "nat \<lfloor>totalArcLength oneLine / ?L\<rfloor> + 1 = 6"
    by (simp add: totalArcLength_def oneLine_lengths)
  have r5: "pieceLoop_fl round_double E oneLine ?lens ?L 6 5
              \<lparr>segmentRemainder = 5764607523034233 / 288230376151711744, previousPercent = p,
               aIndex = 0\<rparr> ps evs = Inl OutOfRange" for p ps evs
    by (rule pieceLoop_fl_overrun) (simp_all add: advance_fl.simps)
  have r4: "pieceLoop_fl round_double E oneLine ?lens ?L 6 4
              \<lparr>segmentRemainder = 2882303761517117 / 72057594037927936, previousPercent = p,
               aIndex = 0\<rparr> ps evs = Inl OutOfRange" for p ps evs
  proof (rule pieceLoop_fl_round)
    show "(4::nat) < 6" by simp
    show "advance_fl round_double ?lens 0 (2882303761517117 / 72057594037927936) ?L
          = Inr (0, 2882303761517117 / 72057594037927936, ?L)"
      by (simp add: advance_fl.simps)
    show "(2882303761517117 / 72057594037927936 :: real) \<noteq> 0" by simp
    have e: "round_double (2882303761517117 / 72057594037927936 - ?L)
             = 5764607523034233 / 288230376151711744"
      by (simp add: round_double_eval)
    have i: "(4::nat) + 1 = 5" by simp
    show "pieceLoop_fl round_double E oneLine ?lens ?L 6 (4 + 1)
           \<lparr>segmentRemainder = round_double (2882303761517117 / 72057594037927936 - ?L),
            previousPercent = p', aIndex = 0\<rparr> ps' evs' = Inl OutOfRange" for p' ps' evs'
      unfolding e i by (rule r5)
  qed
  have r3: "pieceLoop_fl round_double E oneLine ?lens ?L 6 3
              \<lparr>segmentRemainder = 1080863910568919 / 18014398509481984, previousPercent = p,
               aIndex = 0\<rparr> ps evs = Inl OutOfRange" for p ps evs
  proof (rule pieceLoop_fl_round)
    show "(3::nat) < 6" by simp
    show "advance_fl round_double ?lens 0 (1080863910568919 / 18014398509481984) ?L
          = Inr (0, 1080863910568919 / 18014398509481984, ?L)"
      by (simp add: advance_fl.simps)
    show "(1080863910568919 / 18014398509481984 :: real) \<noteq> 0" by simp
    have e: "round_double (1080863910568919 / 18014398509481984 - ?L)
             = 2882303761517117 / 72057594037927936"
      by (simp add: round_double_eval)
    have i: "(3::nat) + 1 = 4" by simp
    show "pieceLoop_fl round_double E oneLine ?lens ?L 6 (3 + 1)
           \<lparr>segmentRemainder = round_double (1080863910568919 / 18014398509481984 - ?L),
            previousPercent = p', aIndex = 0\<rparr> ps' evs' = Inl OutOfRange" for p' ps' evs'
      unfolding e i by (rule r4)
  qed
  have r2: "pieceLoop_fl round_double E oneLine ?lens ?L 6 2
              \<lparr>segmentRemainder = 5764607523034235 / 72057594037927936, previousPercent = p,
               aIndex = 0\<rparr> ps evs = Inl OutOfRange" for p ps evs
  proof (rule pieceLoop_fl_round)
    show "(2::nat) < 6" by simp
    show "advance_fl round_double ?lens 0 (5764607523034235 / 72057594037927936) ?L
          = Inr (0, 5764607523034235 / 72057594037927936, ?L)"
      by (simp add: advance_fl.simps)
    show "(5764607523034235 / 72057594037927936 :: real) \<noteq> 0" by simp
    have e: "round_double (5764607523034235 / 72057594037927936 - ?L)
             = 1080863910568919 / 18014398509481984"
      by (simp add: round_double_eval)
    have i: "(2::nat) + 1 = 3" by simp
    show "pieceLoop_fl round_double E oneLine ?lens ?L 6 (2 + 1)
           \<lparr>segmentRemainder = round_double (5764607523034235 / 72057594037927936 - ?L),
            previousPercent = p', aIndex = 0\<rparr> ps' evs' = Inl OutOfRange" for p' ps' evs'
      unfolding e i by (rule r3)
  qed
  have r1: "pieceLoop_fl round_double E oneLine ?lens ?L 6 1
              \<lparr>segmentRemainder = 3602879701896397 / 36028797018963968, previousPercent = 0,
               aIndex = 0\<rparr> ps evs = Inl OutOfRange" for ps evs
  proof (rule pieceLoop_fl_round)
    show "(1::nat) < 6" by simp
    show "advance_fl round_double ?lens 0 (3602879701896397 / 36028797018963968) ?L
          = Inr (0, 3602879701896397 / 36028797018963968, ?L)"
      by (simp add: advance_fl.simps)
    show "(3602879701896397 / 36028797018963968 :: real) \<noteq> 0" by simp
    have e: "round_double (3602879701896397 / 36028797018963968 - ?L)
             = 5764607523034235 / 72057594037927936"
      by (simp add: round_double_eval)
    have i: "(1::nat) + 1 = 2" by simp
    show "pieceLoop_fl round_double E oneLine ?lens ?L 6 (1 + 1)
           \<lparr>segmentRemainder = round_double (3602879701896397 / 36028797018963968 - ?L),
            previousPercent = p', aIndex = 0\<rparr> ps' evs' = Inl OutOfRange" for p' ps' evs'
      unfolding e i by (rule r2)
  qed
  have "partition_fl round_double E oneLine ?L = Inl OutOfRange"
    using q r1 by (simp add: partition_fl_def oneLine_lengths Let_def)
  with q x show ?thesis by blast
qed

end
